theory Spec2Isabelle
  imports Complex_Main
begin

section \<open>GTR Manager: the process registry of \<open>index.js\<close>\<close>

text \<open>
  The registry is the JSON array stored in \<open>processes.json\<close>. Every helper of
  \<open>index.js\<close> reads the whole file (\<open>readProcesses\<close>) and writes the whole file
  (\<open>writeProcesses\<close>); the model passes the file's content explicitly. Reading and writing
  the registry file is taken to succeed. What the operating system answers (whether a
  script exists, what \<open>spawn\<close>, \<open>kill\<close> and \<open>ps\<close> return, the clock) is a
  parameter of each operation.
\<close>

subsection \<open>Data model\<close>

datatype status = online | stopping | stopped

text \<open>A JavaScript number that is either a finite value or \<open>NaN\<close> (what
  \<open>parseFloat\<close> can return).\<close>

datatype js_number = NaN | Finite real

text \<open>A string is kept as the bytes of its UTF-8 encoding, the form in which it arrives
  on the command line and is stored in the file. The numbers of the registry (\<open>id\<close>,
  \<open>pid\<close>, \<open>instances\<close>, \<open>restarts\<close>) are doubles with an integer value,
  kept as that integer; \<open>JSON.stringify\<close> writes a number that is not finite as
  \<open>null\<close>.

  A command-line argument is a string; \<open>restart\<close> and \<open>delete\<close> pass the
  numeric \<open>process.id\<close> to \<open>stopGTR\<close>, and \<open>options.instances\<close> is a string
  on the command line and, on the restart path, what the file holds for \<open>instances\<close>:
  a number or \<open>null\<close>.\<close>

datatype jsval = Str string | Num int | Null

type_synonym timestamp = int

type_synonym env_map = "(string \<times> string) list"

text \<open>One element of the array, with the fields \<open>startGTR\<close> writes. \<open>pid\<close> is
  absent (\<open>None\<close>) when \<open>child.pid\<close> was undefined: \<open>JSON.stringify\<close> drops the
  property. \<open>instances\<close> is \<open>null\<close> (\<open>None\<close>) when \<open>startGTR\<close> computed
  \<open>Infinity\<close> for it.\<close>

record process_record =
  id' :: int
  name :: string
  pid :: "int option"
  script :: string
  logFile :: string
  errorLogFile :: string
  status :: status
  instances :: "int option"
  restarts :: int
  memory :: js_number
  cpu :: js_number
  env :: env_map
  createdAt :: "timestamp option"
  updatedAt :: timestamp

type_synonym registry = "process_record list"

text \<open>The outcomes the source reports by a message and a \<open>null\<close>/\<open>false\<close> result:
  "not found" (\<open>NotFound\<close>), "does not exist" (\<open>ScriptMissing\<close>), "is already running"
  (\<open>AlreadyRunning\<close>), "Error starting process" (\<open>SpawnFailed\<close>), "was lost during
  restart" (\<open>RestartLost\<close>). \<open>OpenThrew\<close> is not a result but an exception:
  \<open>fs.openSync\<close> threw in \<open>startGTR\<close>, outside its \<open>try\<close>, and the exception
  leaves \<open>startGTR\<close> and the function that called it.\<close>

datatype error =
  NotFound | ScriptMissing | AlreadyRunning | SpawnFailed | RestartLost | OpenThrew

definition readProcesses :: "registry \<Rightarrow> process_record list" where
  "readProcesses file = file"

definition writeProcesses :: "process_record list \<Rightarrow> registry" where
  "writeProcesses processes = processes"

subsection \<open>White space\<close>

text \<open>The code points \<open>parseInt\<close>, \<open>trim\<close> and the class \<open>\s\<close> take for white
  space (WhiteSpace and LineTerminator of the language), each as its UTF-8 bytes: U+0009 to
  U+000D, U+0020, U+00A0, U+1680, U+2000 to U+200A, U+2028, U+2029, U+202F, U+205F, U+3000
  and U+FEFF.\<close>

definition ws_seqs :: "string list" where
  "ws_seqs =
     [[CHR 0x09], [CHR 0x0A], [CHR 0x0B], [CHR 0x0C], [CHR 0x0D], [CHR 0x20],
      [CHR 0xC2, CHR 0xA0],
      [CHR 0xE1, CHR 0x9A, CHR 0x80],
      [CHR 0xE2, CHR 0x80, CHR 0x80], [CHR 0xE2, CHR 0x80, CHR 0x81],
      [CHR 0xE2, CHR 0x80, CHR 0x82], [CHR 0xE2, CHR 0x80, CHR 0x83],
      [CHR 0xE2, CHR 0x80, CHR 0x84], [CHR 0xE2, CHR 0x80, CHR 0x85],
      [CHR 0xE2, CHR 0x80, CHR 0x86], [CHR 0xE2, CHR 0x80, CHR 0x87],
      [CHR 0xE2, CHR 0x80, CHR 0x88], [CHR 0xE2, CHR 0x80, CHR 0x89],
      [CHR 0xE2, CHR 0x80, CHR 0x8A],
      [CHR 0xE2, CHR 0x80, CHR 0xA8], [CHR 0xE2, CHR 0x80, CHR 0xA9],
      [CHR 0xE2, CHR 0x80, CHR 0xAF],
      [CHR 0xE2, CHR 0x81, CHR 0x9F],
      [CHR 0xE3, CHR 0x80, CHR 0x80],
      [CHR 0xEF, CHR 0xBB, CHR 0xBF]]"

text \<open>The number of bytes of the white-space character a string starts with, \<open>0\<close> when
  it starts with none.\<close>

definition ws_len :: "string \<Rightarrow> nat" where
  "ws_len s =
     (case find (\<lambda>q. take (length q) s = q) ws_seqs of None \<Rightarrow> 0 | Some q \<Rightarrow> length q)"

lemma ws_len_le: "ws_len s \<le> length s"
proof (cases "find (\<lambda>q. take (length q) s = q) ws_seqs")
  case None
  then show ?thesis by (simp add: ws_len_def)
next
  case (Some q)
  then have "take (length q) s = q" by (auto simp: find_Some_iff)
  then have "length q \<le> length s" by (metis length_take min.cobounded1)
  with Some show ?thesis by (simp add: ws_len_def)
qed

function drop_ws :: "string \<Rightarrow> string" where
  "drop_ws s = (if ws_len s = 0 then s else drop_ws (drop (ws_len s) s))"
  by pat_completeness auto

termination drop_ws
proof (relation "measure length")
  show "wf (measure (length :: string \<Rightarrow> nat))" by simp
next
  fix s :: string
  assume "ws_len s \<noteq> 0"
  with ws_len_le [of s] have "0 < ws_len s \<and> 0 < length s" by arith
  then show "(drop (ws_len s) s, s) \<in> measure length" by simp
qed

declare drop_ws.simps [simp del]

subsection \<open>Doubles with an integer value\<close>

function bit_length :: "nat \<Rightarrow> nat" where
  "bit_length n = (if n = 0 then 0 else Suc (bit_length (n div 2)))"
  by pat_completeness auto

termination bit_length
  by (relation "measure id") simp_all

declare bit_length.simps [simp del]

text \<open>The double nearest to a natural number, ties to the even significand (53 bits).\<close>

definition round_nat :: "nat \<Rightarrow> nat" where
  "round_nat n =
     (let b = bit_length n in
      if b \<le> 53 then n
      else
        let e = b - 53; q = n div 2 ^ e; r = n mod 2 ^ e; h = 2 ^ (e - 1)
        in (if h < r \<or> (r = h \<and> odd q) then q + 1 else q) * 2 ^ e)"

definition round_int :: "int \<Rightarrow> int" where
  "round_int n = (if n < 0 then - int (round_nat (nat (- n))) else int (round_nat (nat n)))"

text \<open>What \<open>parseInt\<close> returns: \<open>NaN\<close>, an infinity, or a double with an integer
  value (\<open>-0\<close> is not told from \<open>0\<close>: \<open>===\<close>, \<open>||\<close> and \<open>JSON.stringify\<close>
  do not tell them apart).\<close>

datatype parsed = PNaN | PInfinity | PInt int

text \<open>The Number for a mathematical integer: a value that rounds to \<open>2 ^ 1024\<close> or more
  is an infinity.\<close>

definition to_double :: "int \<Rightarrow> parsed" where
  "to_double n = (if 2 ^ 1024 \<le> \<bar>round_int n\<bar> then PInfinity else PInt (round_int n))"

text \<open>
  \<open>String(v)\<close> for a double \<open>v\<close> of \<open>10 ^ 21\<close> or more is in exponent notation,
  \<open>d.ddde+NN\<close> or \<open>de+NN\<close>, with the fewest digits that read back as \<open>v\<close>. Its
  first digit is the \<open>d\<close> for which a one-digit decimal \<open>d * 10 ^ k\<close> rounds to
  \<open>v\<close> when there is one, and the first digit of \<open>v\<close> itself otherwise.
\<close>

function pow10_below :: "nat \<Rightarrow> nat" where
  "pow10_below n = (if n < 10 then 1 else 10 * pow10_below (n div 10))"
  by pat_completeness auto

termination pow10_below
  by (relation "measure id") simp_all

declare pow10_below.simps [simp del]

definition exp_first_digit :: "nat \<Rightarrow> nat" where
  "exp_first_digit v =
     (let p = pow10_below v in
      case find (\<lambda>d. round_nat (d * p) = v) [1, 2, 3, 4, 5, 6, 7, 8, 9] of
        Some d \<Rightarrow> d
      | None \<Rightarrow> if round_nat (10 * p) = v then 1 else v div p)"

subsection \<open>\<open>parseInt(identifier, 10)\<close>\<close>

definition is_digit :: "char \<Rightarrow> bool" where
  "is_digit c = (48 \<le> (of_char c :: nat) \<and> (of_char c :: nat) \<le> 57)"

definition digit_val :: "char \<Rightarrow> int" where
  "digit_val c = int (of_char c) - 48"

definition digits_val :: "string \<Rightarrow> int" where
  "digits_val z = foldl (\<lambda>a c. 10 * a + digit_val c) 0 z"

text \<open>Leading white space is skipped, one sign is read, then the longest run of decimal
  digits; no digit gives \<open>NaN\<close>. The integer read is rounded to the nearest double (the
  language lets an implementation approximate past the 20th digit; V8 rounds
  correctly).\<close>

definition parseInt_str :: "string \<Rightarrow> parsed" where
  "parseInt_str s =
     (let s1 = drop_ws s;
          neg = (case s1 of [] \<Rightarrow> False | c # _ \<Rightarrow> c = CHR ''-'');
          s2 = (case s1 of [] \<Rightarrow> []
                | c # r \<Rightarrow> if c = CHR ''-'' \<or> c = CHR ''+'' then r else s1);
          z = takeWhile is_digit s2
      in if z = [] then PNaN
         else to_double (if neg then - digits_val z else digits_val z))"

text \<open>\<open>parseInt\<close> of a value that is not a string reads \<open>String\<close> of it. For a
  number below \<open>10 ^ 21\<close> in magnitude that is a decimal numeral which reads back as the
  number; from \<open>10 ^ 21\<close> on it is in exponent notation and \<open>parseInt\<close> stops after
  its first digit. \<open>String(null)\<close> has no digit.\<close>

fun parseInt :: "jsval \<Rightarrow> parsed" where
  "parseInt (Str s) = parseInt_str s"
| "parseInt (Num n) =
     (if \<bar>n\<bar> < 10 ^ 21 then PInt n
      else PInt (sgn n * int (exp_first_digit (nat \<bar>n\<bar>))))"
| "parseInt Null = PNaN"

subsection \<open>\<open>findProcess\<close>\<close>

text \<open>The predicate of \<open>processes.find\<close>:
  \<open>p.id === num || p.name === identifier || (!isNaN(num) && p.pid === num)\<close>.
  \<open>===\<close> against \<open>NaN\<close> is false, an id or a pid of the file never equals an
  infinity, an absent pid equals no number, and a name (a string) never equals a
  number.\<close>

definition matches :: "jsval \<Rightarrow> process_record \<Rightarrow> bool" where
  "matches identifier p =
     (let num = parseInt identifier
      in num = PInt (id' p) \<or> identifier = Str (name p)
         \<or> (num \<noteq> PNaN \<and> (case pid p of None \<Rightarrow> False | Some q \<Rightarrow> PInt q = num)))"

definition findProcess :: "jsval \<Rightarrow> registry \<Rightarrow> process_record option" where
  "findProcess identifier file =
     (let processes = readProcesses file in find (matches identifier) processes)"

subsection \<open>\<open>generateId\<close>\<close>

function generateId_loop :: "int list \<Rightarrow> int \<Rightarrow> int" where
  "generateId_loop existingIds i =
     (if i \<in> set existingIds then generateId_loop existingIds (i + 1) else i)"
  by pat_completeness auto

termination generateId_loop
proof (relation "measure (\<lambda>(ids, i). card {x \<in> set ids. i \<le> x})")
  show "wf (measure (\<lambda>(ids, i). card {x \<in> set ids. i \<le> x}))" by simp
next
  fix existingIds :: "int list" and i :: int
  assume "i \<in> set existingIds"
  then have "i \<in> {x \<in> set existingIds. i \<le> x}"
    and "i \<notin> {x \<in> set existingIds. i + 1 \<le> x}"
    by simp_all
  moreover have "{x \<in> set existingIds. i + 1 \<le> x} \<subseteq> {x \<in> set existingIds. i \<le> x}"
    by auto
  ultimately have "{x \<in> set existingIds. i + 1 \<le> x} \<subset> {x \<in> set existingIds. i \<le> x}"
    by blast
  then have "card {x \<in> set existingIds. i + 1 \<le> x} < card {x \<in> set existingIds. i \<le> x}"
    by (intro psubset_card_mono) auto
  then show "((existingIds, i + 1), (existingIds, i))
      \<in> measure (\<lambda>(ids, i). card {x \<in> set ids. i \<le> x})"
    by simp
qed

declare generateId_loop.simps [simp del]

definition generateId :: "registry \<Rightarrow> int" where
  "generateId file =
     (let processes = readProcesses file;
          existingIds = map id' processes
      in generateId_loop existingIds 0)"

subsection \<open>\<open>startGTR\<close>\<close>

datatype spawn_result = SpawnThrows | Child "int option"

text \<open>What one call of \<open>startGTR\<close> sees of its surroundings: the file system test
  \<open>fs.existsSync\<close>, the result of \<open>spawn\<close> (an exception, or a child whose \<open>pid\<close>
  may be undefined), the two readings of the clock, and Node's \<open>path.join(LOG_DIR, _)\<close>
  and \<open>path.resolve\<close>, and for which paths \<open>fs.openSync(_, 'a')\<close> throws. The
  environment of the child (\<open>process.env\<close> merged with \<open>options.env\<close>) is not
  stored.\<close>

record world =
  fs_exists :: "string \<Rightarrow> bool"
  open_throws :: "string \<Rightarrow> bool"
  spawn :: spawn_result
  now_created :: timestamp
  now_updated :: timestamp
  log_path :: "string \<Rightarrow> string"
  path_resolve :: "string \<Rightarrow> string"

record options =
  opt_instances :: jsval
  opt_env :: env_map
  opt_restarts :: "int option"
  opt_createdAt :: "timestamp option"

text \<open>\<open>parseInt(options.instances, 10) || 1\<close>, as the file holds it afterwards:
  \<open>NaN\<close> and \<open>0\<close> are falsy, and an infinity is written as \<open>null\<close>.\<close>

definition instances_of :: "jsval \<Rightarrow> int option" where
  "instances_of v =
     (case parseInt v of
        PNaN \<Rightarrow> Some 1
      | PInfinity \<Rightarrow> None
      | PInt n \<Rightarrow> Some (if n = 0 then 1 else n))"

text \<open>\<open>(options.restarts || 0) + 1\<close>, an addition of doubles.\<close>

definition restarts_of :: "int option \<Rightarrow> int" where
  "restarts_of r = round_int ((case r of None \<Rightarrow> 0 | Some n \<Rightarrow> n) + 1)"

definition processInfo ::
  "world \<Rightarrow> string \<Rightarrow> string \<Rightarrow> options \<Rightarrow> int option \<Rightarrow> int \<Rightarrow> int option \<Rightarrow> process_record"
where
  "processInfo w nm scr opts existingId i child_pid =
     \<lparr> id' = i,
       name = nm,
       pid = child_pid,
       script = path_resolve w scr,
       logFile = log_path w (nm @ ''.log''),
       errorLogFile = log_path w (nm @ ''-error.log''),
       status = online,
       instances = instances_of (opt_instances opts),
       restarts = (if existingId \<noteq> None then restarts_of (opt_restarts opts) else 0),
       memory = Finite 0,
       cpu = Finite 0,
       env = opt_env opts,
       createdAt = (if existingId \<noteq> None then opt_createdAt opts else Some (now_created w)),
       updatedAt = now_updated w \<rparr>"

definition startGTR ::
  "world \<Rightarrow> string \<Rightarrow> string \<Rightarrow> options \<Rightarrow> int option \<Rightarrow> registry \<Rightarrow> (error + int) \<times> registry"
where
  "startGTR w nm scr opts existingId file =
     (if \<not> fs_exists w scr then (Inl ScriptMissing, file)
      else
        let existingProcesses = readProcesses file in
        if list_ex (\<lambda>p. name p = nm \<and> status p = online) existingProcesses
        then (Inl AlreadyRunning, file)
        else if open_throws w (log_path w (nm @ ''.log''))
                \<or> open_throws w (log_path w (nm @ ''-error.log''))
        then (Inl OpenThrew, file)
        else
          (case spawn w of
             SpawnThrows \<Rightarrow> (Inl SpawnFailed, file)
           | Child child_pid \<Rightarrow>
               let processes = readProcesses file;
                   i = (case existingId of Some e \<Rightarrow> e | None \<Rightarrow> generateId file);
                   info = processInfo w nm scr opts existingId i child_pid
               in (Inr i, writeProcesses (processes @ [info]))))"


subsection \<open>\<open>stopGTR\<close>\<close>

text \<open>\<open>Array.prototype.findIndex\<close>; \<open>None\<close> is the result \<open>-1\<close>.\<close>

fun findIndex :: "('a \<Rightarrow> bool) \<Rightarrow> 'a list \<Rightarrow> nat option" where
  "findIndex P [] = None"
| "findIndex P (x # xs) = (if P x then Some 0 else map_option Suc (findIndex P xs))"

text \<open>\<open>xs.splice(k, 1)\<close> for an index in range.\<close>

definition splice1 :: "nat \<Rightarrow> 'a list \<Rightarrow> 'a list" where
  "splice1 k xs = take k xs @ drop (Suc k) xs"

text \<open>\<open>if (process.pid)\<close>: undefined and \<open>0\<close> are falsy.\<close>

definition truthy_pid :: "int option \<Rightarrow> bool" where
  "truthy_pid q = (case q of None \<Rightarrow> False | Some n \<Rightarrow> n \<noteq> 0)"

text \<open>What \<open>stopGTR\<close> leaves behind when it returns \<open>true\<close>: a \<open>kill\<close> whose
  callback is still to run, or nothing to signal. Both carry the object \<open>process\<close> as the
  function left it in memory.\<close>

datatype pending = KillRequested process_record | NoSignal process_record

text \<open>
  \<open>stopGTR\<close> reads the file into \<open>processes\<close>, and \<open>findProcess\<close> reads the file
  again: \<open>process\<close> is an object of that second array (\<open>JSON.parse\<close> builds new
  objects at every read), not an element of \<open>processes\<close>. The assignments to
  \<open>process.status\<close> and \<open>process.updatedAt\<close> change that object only, and
  \<open>writeProcesses(processes)\<close> writes the first array.
\<close>

definition stopGTR :: "timestamp \<Rightarrow> jsval \<Rightarrow> registry \<Rightarrow> (error + pending) \<times> registry" where
  "stopGTR now identifier file =
     (let processes = readProcesses file in
      case findProcess identifier file of
        None \<Rightarrow> (Inl NotFound, file)
      | Some process \<Rightarrow>
          let process1 = process\<lparr>status := stopping, updatedAt := now\<rparr>;
              file1 = writeProcesses processes
          in if truthy_pid (pid process1) then (Inr (KillRequested process1), file1)
             else
               let process2 = process1\<lparr>status := stopped\<rparr>;
                   file2 = writeProcesses processes
               in (Inr (NoSignal process2), file2))"

text \<open>The callbacks of \<open>kill\<close> and \<open>kill -9\<close>: a new read of the file, the first
  record with \<open>process.id\<close> set to \<open>stopped\<close>, the file written.\<close>

datatype kill_outcome = KillOk | KillFailedForceOk | KillFailedForceFailed

definition mark_stopped :: "timestamp \<Rightarrow> int \<Rightarrow> registry \<Rightarrow> registry" where
  "mark_stopped now i file =
     (let updatedProcesses = readProcesses file in
      case findIndex (\<lambda>p. id' p = i) updatedProcesses of
        None \<Rightarrow> file
      | Some k \<Rightarrow>
          writeProcesses
            (updatedProcesses[k := (updatedProcesses ! k)\<lparr>status := stopped, updatedAt := now\<rparr>]))"

definition kill_callback :: "kill_outcome \<Rightarrow> timestamp \<Rightarrow> process_record \<Rightarrow> registry \<Rightarrow> registry" where
  "kill_callback outcome now process file =
     (case outcome of
        KillOk \<Rightarrow> mark_stopped now (id' process) file
      | KillFailedForceOk \<Rightarrow> mark_stopped now (id' process) file
      | KillFailedForceFailed \<Rightarrow> file)"

definition run_pending :: "kill_outcome \<Rightarrow> timestamp \<Rightarrow> error + pending \<Rightarrow> registry \<Rightarrow> registry" where
  "run_pending outcome now stop_result file =
     (case stop_result of
        Inr (KillRequested process) \<Rightarrow> kill_callback outcome now process file
      | _ \<Rightarrow> file)"

subsection \<open>The \<open>restart\<close> command\<close>

text \<open>The action up to \<open>setTimeout\<close>: the matched record and what \<open>stopGTR(process.id)\<close>
  returned.\<close>

definition restart_begin ::
  "timestamp \<Rightarrow> string \<Rightarrow> registry \<Rightarrow> (error + process_record \<times> (error + pending)) \<times> registry"
where
  "restart_begin now identifier file =
     (case findProcess (Str identifier) file of
        None \<Rightarrow> (Inl NotFound, file)
      | Some process \<Rightarrow>
          let r = stopGTR now (Num (id' process)) file
          in (Inr (process, fst r), snd r))"

text \<open>The function given to \<open>setTimeout(_, 2000)\<close>, on the file as it is when the timer
  fires.\<close>

text \<open>A field of the file that holds a number or \<open>null\<close>, as a value.\<close>

definition json_number :: "int option \<Rightarrow> jsval" where
  "json_number v = (case v of None \<Rightarrow> Null | Some n \<Rightarrow> Num n)"

definition restart_options :: "process_record \<Rightarrow> options" where
  "restart_options process =
     \<lparr> opt_instances = json_number (instances process),
       opt_env = env process,
       opt_restarts = Some (restarts process),
       opt_createdAt = createdAt process \<rparr>"

definition restart_timer :: "world \<Rightarrow> process_record \<Rightarrow> registry \<Rightarrow> (error + int) \<times> registry" where
  "restart_timer w process file =
     (let updatedProcesses = readProcesses file in
      case find (\<lambda>p. id' p = id' process) updatedProcesses of
        None \<Rightarrow> (Inl RestartLost, file)
      | Some updatedProcess \<Rightarrow>
          let file1 =
                (case findIndex (\<lambda>p. id' p = id' process) updatedProcesses of
                   None \<Rightarrow> file
                 | Some k \<Rightarrow> writeProcesses (splice1 k updatedProcesses))
          in startGTR w (name process) (script process) (restart_options process)
               (Some (id' process)) file1)"

text \<open>The whole command, with the callbacks of \<open>kill\<close> run before the timer fires.\<close>

definition restart ::
  "world \<Rightarrow> timestamp \<Rightarrow> kill_outcome \<Rightarrow> timestamp \<Rightarrow> string \<Rightarrow> registry \<Rightarrow> (error + int) \<times> registry"
where
  "restart w now outcome kill_time identifier file =
     (case restart_begin now identifier file of
        (Inl e, file1) \<Rightarrow> (Inl e, file1)
      | (Inr (process, stop_result), file1) \<Rightarrow>
          restart_timer w process (run_pending outcome kill_time stop_result file1))"

subsection \<open>The \<open>delete\<close>, \<open>show\<close> and \<open>logs\<close> commands\<close>

text \<open>\<open>processes.splice(processIndex, 1)\<close> where the index may be \<open>-1\<close>, which removes
  the last element.\<close>

definition splice_index :: "nat option \<Rightarrow> 'a list \<Rightarrow> 'a list" where
  "splice_index k xs = (case k of None \<Rightarrow> butlast xs | Some i \<Rightarrow> splice1 i xs)"

datatype delete_result = Deleted | DeleteScheduled process_record "error + pending"

definition delete_cmd ::
  "timestamp \<Rightarrow> string \<Rightarrow> bool \<Rightarrow> registry \<Rightarrow> (error + delete_result) \<times> registry"
where
  "delete_cmd now identifier stop_option file =
     (let processes = readProcesses file in
      case findProcess (Str identifier) file of
        None \<Rightarrow> (Inl NotFound, file)
      | Some process \<Rightarrow>
          if stop_option \<and> status process = online
          then
            let r = stopGTR now (Num (id' process)) file
            in (Inr (DeleteScheduled process (fst r)), snd r)
          else
            let processIndex = findIndex (\<lambda>p. id' p = id' process) processes
            in (Inr Deleted, writeProcesses (splice_index processIndex processes)))"

definition delete_timer :: "process_record \<Rightarrow> registry \<Rightarrow> registry" where
  "delete_timer process file =
     (let updatedProcesses = readProcesses file in
      case findIndex (\<lambda>p. id' p = id' process) updatedProcesses of
        None \<Rightarrow> file
      | Some k \<Rightarrow> writeProcesses (splice1 k updatedProcesses))"

definition show_cmd :: "string \<Rightarrow> registry \<Rightarrow> error + process_record" where
  "show_cmd identifier file =
     (case findProcess (Str identifier) file of
        None \<Rightarrow> Inl NotFound
      | Some process \<Rightarrow> Inr process)"

datatype logs_result = NoLogs | LogsCleared | Tail string bool

definition logs_cmd ::
  "(string \<Rightarrow> bool) \<Rightarrow> string \<Rightarrow> bool \<Rightarrow> bool \<Rightarrow> bool \<Rightarrow> registry \<Rightarrow> error + logs_result"
where
  "logs_cmd existsSync identifier opt_error opt_follow opt_clear file =
     (case findProcess (Str identifier) file of
        None \<Rightarrow> Inl NotFound
      | Some process \<Rightarrow>
          let lf = (if opt_error then errorLogFile process else logFile process) in
          if \<not> existsSync lf then Inr NoLogs
          else if opt_clear \<and> \<not> opt_follow then Inr LogsCleared
          else Inr (Tail lf opt_follow))"

subsection \<open>The \<open>prune\<close>, \<open>save\<close> and \<open>resurrect\<close> commands\<close>

datatype prune_result = NothingToPrune | Pruned nat

definition prune :: "registry \<Rightarrow> prune_result \<times> registry" where
  "prune file =
     (let processes = readProcesses file;
          initialCount = length processes;
          activeProcesses = filter (\<lambda>p. status p = online) processes
      in if length activeProcesses = initialCount then (NothingToPrune, file)
         else (Pruned (initialCount - length activeProcesses), writeProcesses activeProcesses))"

text \<open>\<open>ecosystem.json\<close> is absent (\<open>None\<close>) until \<open>save\<close> writes it.\<close>

type_synonym ecosystem = "process_record list option"


definition resurrect_options :: "process_record \<Rightarrow> options" where
  "resurrect_options process =
     \<lparr> opt_instances = json_number (instances process),
       opt_env = env process,
       opt_restarts = None,
       opt_createdAt = None \<rparr>"

text \<open>One item per saved entry the loop reaches: "Cannot resurrect ..., script not found",
  or what \<open>startGTR\<close> returned. The \<open>k\<close>-th entry is handled in the surroundings
  \<open>ws k\<close>. An exception of \<open>startGTR\<close> leaves the \<open>forEach\<close>: the entries after
  it are not looked at.\<close>

datatype resurrect_item = Skipped | Attempted "error + int"

fun resurrect_each ::
  "(nat \<Rightarrow> world) \<Rightarrow> nat \<Rightarrow> process_record list \<Rightarrow> registry \<Rightarrow> resurrect_item list \<times> registry"
where
  "resurrect_each ws k [] file = ([], file)"
| "resurrect_each ws k (process # rest) file =
     (if fs_exists (ws k) (script process)
      then
        let r = startGTR (ws k) (name process) (script process) (resurrect_options process)
                  None file
        in if fst r = Inl OpenThrew then ([Attempted (fst r)], snd r)
           else
             let rs = resurrect_each ws (Suc k) rest (snd r)
             in (Attempted (fst r) # fst rs, snd rs)
      else
        let rs = resurrect_each ws (Suc k) rest file
        in (Skipped # fst rs, snd rs))"

datatype resurrect_result = NoSnapshot | EmptySnapshot | Resurrecting "resurrect_item list"

definition resurrect :: "(nat \<Rightarrow> world) \<Rightarrow> ecosystem \<Rightarrow> registry \<Rightarrow> resurrect_result \<times> registry" where
  "resurrect ws eco file =
     (case eco of
        None \<Rightarrow> (NoSnapshot, file)
      | Some processes \<Rightarrow>
          if length processes = 0 then (EmptySnapshot, file)
          else
            let rs = resurrect_each ws 0 processes file
            in (Resurrecting (fst rs), snd rs))"

subsection \<open>\<open>monitorProcesses\<close>\<close>

text \<open>\<open>String.prototype.trim\<close>, \<open>split('\n')\<close> and \<open>split(/\s+/)\<close>. White
  space at the end of a string is found on the reversed bytes.\<close>

definition ws_len_end :: "string \<Rightarrow> nat" where
  "ws_len_end s =
     (case find (\<lambda>q. take (length q) (rev s) = rev q) ws_seqs of
        None \<Rightarrow> 0
      | Some q \<Rightarrow> length q)"

lemma ws_len_end_le: "ws_len_end s \<le> length s"
proof (cases "find (\<lambda>q. take (length q) (rev s) = rev q) ws_seqs")
  case None
  then show ?thesis by (simp add: ws_len_end_def)
next
  case (Some q)
  then have "take (length q) (rev s) = rev q" by (auto simp: find_Some_iff)
  then have "length q \<le> length s" by (metis length_rev length_take min.cobounded1)
  with Some show ?thesis by (simp add: ws_len_end_def)
qed

function drop_ws_end :: "string \<Rightarrow> string" where
  "drop_ws_end s =
     (if ws_len_end s = 0 then s else drop_ws_end (take (length s - ws_len_end s) s))"
  by pat_completeness auto

termination drop_ws_end
proof (relation "measure length")
  show "wf (measure (length :: string \<Rightarrow> nat))" by simp
next
  fix s :: string
  assume "ws_len_end s \<noteq> 0"
  with ws_len_end_le [of s] have "0 < ws_len_end s \<and> 0 < length s" by arith
  then show "(take (length s - ws_len_end s) s, s) \<in> measure length" by simp
qed

declare drop_ws_end.simps [simp del]

definition js_trim :: "string \<Rightarrow> string" where
  "js_trim s = drop_ws_end (drop_ws s)"

fun split_on :: "char \<Rightarrow> string \<Rightarrow> string list" where
  "split_on c [] = [[]]"
| "split_on c (x # xs) =
     (if x = c then [] # split_on c xs
      else (case split_on c xs of [] \<Rightarrow> [[x]] | l # ls \<Rightarrow> (x # l) # ls))"

function ws_pieces :: "string \<Rightarrow> string \<Rightarrow> string list" where
  "ws_pieces cur [] = [rev cur]"
| "ws_pieces cur (x # xs) =
     (if ws_len (x # xs) \<noteq> 0 then rev cur # ws_pieces [] (drop_ws (x # xs))
      else ws_pieces (x # cur) xs)"
  by pat_completeness auto

lemma drop_ws_length: "length (drop_ws s) \<le> length s"
proof (induction s rule: drop_ws.induct)
  case (1 s)
  show ?case
  proof (cases "ws_len s = 0")
    case True
    then show ?thesis by (simp add: drop_ws.simps [of s])
  next
    case False
    with 1 have "length (drop_ws (drop (ws_len s) s)) \<le> length (drop (ws_len s) s)" by simp
    with False show ?thesis by (simp add: drop_ws.simps [of s])
  qed
qed

lemma drop_ws_shorter: "ws_len s \<noteq> 0 \<Longrightarrow> length (drop_ws s) < length s"
proof -
  assume a: "ws_len s \<noteq> 0"
  with ws_len_le [of s] have "length (drop (ws_len s) s) < length s" by simp
  moreover have "length (drop_ws (drop (ws_len s) s)) \<le> length (drop (ws_len s) s)"
    by (rule drop_ws_length)
  ultimately show ?thesis using a by (simp add: drop_ws.simps [of s])
qed

termination ws_pieces
proof (relation "measure (\<lambda>(cur, s). length s)")
  show "wf (measure (\<lambda>(cur :: string, s :: string). length s))" by simp
next
  fix cur :: string and x :: char and xs :: string
  assume "ws_len (x # xs) \<noteq> 0"
  then have "length (drop_ws (x # xs)) < length (x # xs)" by (rule drop_ws_shorter)
  then show "(([], drop_ws (x # xs)), (cur, x # xs)) \<in> measure (\<lambda>(cur, s). length s)"
    by simp
next
  fix cur :: string and x :: char and xs :: string
  show "((x # cur, xs), (cur, x # xs)) \<in> measure (\<lambda>(cur, s). length s)" by simp
qed

definition split_ws :: "string \<Rightarrow> string list" where
  "split_ws s = ws_pieces [] s"

text \<open>An array element that may be missing: \<open>xs[k]\<close> is \<open>undefined\<close> out of range.\<close>

definition element :: "'a list \<Rightarrow> nat \<Rightarrow> 'a option" where
  "element xs k = (if k < length xs then Some (xs ! k) else None)"

text \<open>What \<open>exec\<close> does with a \<open>ps\<close> command: it throws at once (then \<open>safeExec\<close>
  calls the callback with the error and \<open>null\<close>), or the callback runs later with an error
  flag and the standard output.\<close>

datatype exec_reply = ExecThrows | ExecDone bool string

text \<open>The surroundings of one record during a poll: the reply to \<open>ps -p pid -o pid=\<close>,
  the reply to \<open>ps -p pid -o %cpu,%mem\<close>, and the clock when the first callback and when
  a nested callback runs.\<close>

record probe =
  alive_reply :: exec_reply
  usage_reply :: exec_reply
  t_seen :: timestamp
  t_done :: timestamp

definition monitored :: "process_record \<Rightarrow> bool" where
  "monitored p = (status p = online \<or> status p = stopping)"

text \<open>The loop itself. Only an \<open>exec\<close> that throws runs its callback inside the loop, with
  an error: the record becomes \<open>stopped\<close> and \<open>updated\<close> is set. The other callbacks
  run after \<open>monitorProcesses\<close> has tested \<open>updated\<close> and returned.\<close>

definition monitor_sync :: "probe \<Rightarrow> process_record \<Rightarrow> process_record \<times> bool" where
  "monitor_sync pr p =
     (if monitored p \<and> alive_reply pr = ExecThrows
      then (p\<lparr>status := stopped, updatedAt := t_seen pr\<rparr>, True)
      else (p, False))"

text \<open>The callback of the usage query.\<close>

definition usage_callback ::
  "(string option \<Rightarrow> js_number) \<Rightarrow> probe \<Rightarrow> process_record \<Rightarrow> process_record"
where
  "usage_callback parseFloat pr p =
     (case usage_reply pr of
        ExecThrows \<Rightarrow> p
      | ExecDone err out \<Rightarrow>
          if \<not> err \<and> out \<noteq> [] then
            let lines = split_on (CHR 0x0A) (js_trim out) in
            if length lines > 1 then
              let toks = split_ws (js_trim (lines ! 1))
              in p\<lparr>cpu := parseFloat (element toks 0),
                    memory := parseFloat (element toks 1),
                    updatedAt := t_done pr\<rparr>
            else p
          else p)"

text \<open>The callback of the liveness query, when it runs later.\<close>

definition monitor_async ::
  "(string option \<Rightarrow> js_number) \<Rightarrow> probe \<Rightarrow> process_record \<Rightarrow> process_record"
where
  "monitor_async parseFloat pr p =
     (if \<not> monitored p then p
      else
        (case alive_reply pr of
           ExecThrows \<Rightarrow> p
         | ExecDone err out \<Rightarrow>
             if err \<or> js_trim out = [] then
               (if status p \<noteq> stopped then p\<lparr>status := stopped, updatedAt := t_seen pr\<rparr> else p)
             else if status p = stopping then
               (if t_seen pr - updatedAt p > 30000
                then p\<lparr>status := stopped, updatedAt := t_done pr\<rparr>
                else p)
             else usage_callback parseFloat pr p))"

text \<open>The result is the file after the call, and the array \<open>processes\<close> as the callbacks
  leave it in memory.\<close>

definition monitorProcesses ::
  "(string option \<Rightarrow> js_number) \<Rightarrow> (nat \<Rightarrow> probe) \<Rightarrow> registry \<Rightarrow> registry \<times> process_record list"
where
  "monitorProcesses parseFloat probes file =
     (let processes = readProcesses file;
          pass = map (\<lambda>k. monitor_sync (probes k) (processes ! k)) [0..<length processes];
          processes1 = map fst pass;
          updated = list_ex snd pass;
          file1 = (if updated then writeProcesses processes1 else file);
          processes2 =
            map (\<lambda>k. monitor_async parseFloat (probes k) (processes1 ! k))
              [0..<length processes1]
      in (file1, processes2))"

subsection \<open>Sequences of calls, and predicates used in the statements\<close>

text \<open>A sequence of \<open>start\<close> commands (no \<open>existingId\<close>), each in its own
  surroundings.\<close>

type_synonym start_call = "world \<times> string \<times> string \<times> options"

fun start_calls :: "start_call list \<Rightarrow> registry \<Rightarrow> registry" where
  "start_calls [] file = file"
| "start_calls ((w, nm, scr, opts) # rest) file =
     start_calls rest (snd (startGTR w nm scr opts None file))"

text \<open>The registry with another status in the first record of a given id: the states the
  file can be in when the timer of \<open>restart\<close> fires.\<close>

definition with_status :: "int \<Rightarrow> status \<Rightarrow> registry \<Rightarrow> registry" where
  "with_status i s file =
     (case findIndex (\<lambda>p. id' p = i) file of
        None \<Rightarrow> file
      | Some k \<Rightarrow> file[k := (file ! k)\<lparr>status := s\<rparr>])"

text \<open>The liveness query found the process: no error and an output that is not blank.\<close>

definition reports_alive :: "exec_reply \<Rightarrow> bool" where
  "reports_alive r = (case r of ExecThrows \<Rightarrow> False | ExecDone err out \<Rightarrow> \<not> err \<and> js_trim out \<noteq> [])"

text \<open>The usage query failed or returned no data: \<open>exec\<close> threw, the callback got an
  error, or the output has no line after the header.\<close>

definition usage_failed :: "exec_reply \<Rightarrow> bool" where
  "usage_failed r =
     (case r of
        ExecThrows \<Rightarrow> True
      | ExecDone err out \<Rightarrow> err \<or> length (split_on (CHR 0x0A) (js_trim out)) \<le> 1)"

text \<open>
  The writes \<open>index.js\<close> makes to the registry, one constructor per synchronous piece of
  code: \<open>startGTR\<close> from the \<open>start\<close> command, \<open>stopGTR\<close>, a callback of
  \<open>kill\<close>, the timers of \<open>restart\<close> and \<open>delete\<close>, \<open>delete\<close>, \<open>prune\<close>,
  \<open>resurrect\<close> and \<open>monitorProcesses\<close>. The records the callbacks and timers hold, and
  the snapshot \<open>resurrect\<close> reads, are left arbitrary. \<open>run_steps\<close> applies a sequence
  of them to the empty registry the program creates at its first run.
\<close>

datatype step =
    StartStep world string string options
  | StopStep timestamp jsval
  | KillStep kill_outcome timestamp process_record
  | RestartTimerStep world process_record
  | DeleteStep timestamp string bool
  | DeleteTimerStep process_record
  | PruneStep
  | ResurrectStep "nat \<Rightarrow> world" ecosystem
  | MonitorStep "string option \<Rightarrow> js_number" "nat \<Rightarrow> probe"

fun step_file :: "step \<Rightarrow> registry \<Rightarrow> registry" where
  "step_file (StartStep w nm scr opts) reg = snd (startGTR w nm scr opts None reg)"
| "step_file (StopStep now identifier) reg = snd (stopGTR now identifier reg)"
| "step_file (KillStep outcome now process) reg = kill_callback outcome now process reg"
| "step_file (RestartTimerStep w process) reg = snd (restart_timer w process reg)"
| "step_file (DeleteStep now identifier stop_option) reg
     = snd (delete_cmd now identifier stop_option reg)"
| "step_file (DeleteTimerStep process) reg = delete_timer process reg"
| "step_file PruneStep reg = snd (prune reg)"
| "step_file (ResurrectStep ws eco) reg = snd (resurrect ws eco reg)"
| "step_file (MonitorStep parseFloat probes) reg = fst (monitorProcesses parseFloat probes reg)"

definition run_steps :: "step list \<Rightarrow> registry" where
  "run_steps steps = foldl (\<lambda>reg s. step_file s reg) [] steps"

text \<open>The ids are pairwise distinct and no record has \<open>instances = 0\<close>.\<close>

definition registry_inv :: "registry \<Rightarrow> bool" where
  "registry_inv reg =
     (distinct (map id' reg) \<and> list_all (\<lambda>p. instances p \<noteq> Some 0) reg)"





subsection \<open>Example data\<close>

definition example_world :: world where
  "example_world =
     \<lparr> fs_exists = (\<lambda>f. f = ''/srv/app.js''),
       open_throws = (\<lambda>f. False),
       spawn = Child (Some 4242),
       now_created = 1000,
       now_updated = 1001,
       log_path = (\<lambda>f. ''/logs/'' @ f),
       path_resolve = (\<lambda>f. f) \<rparr>"

definition example_options :: options where
  "example_options =
     \<lparr> opt_instances = Str ''1'', opt_env = [], opt_restarts = None, opt_createdAt = None \<rparr>"

definition example_record :: process_record where
  "example_record =
     \<lparr> id' = 0, name = ''app'', pid = Some 4000, script = ''/srv/app.js'',
       logFile = ''/logs/app.log'', errorLogFile = ''/logs/app-error.log'',
       status = online, instances = Some 1, restarts = 0, memory = Finite 0,
       cpu = Finite 0, env = [], createdAt = Some 500, updatedAt = 501 \<rparr>"

definition example_registry :: registry where
  "example_registry =
     [example_record,
      example_record\<lparr>id' := 1, name := ''worker'', pid := Some 4001, status := stopped\<rparr>]"

section \<open>Properties\<close>

subsection \<open>Auxiliary facts\<close>

lemma generateId_loop_ge: "i \<le> generateId_loop ids i"
proof (induction ids i rule: generateId_loop.induct)
  case (1 existingIds i)
  show ?case
  proof (cases "i \<in> set existingIds")
    case True
    with 1 have "i + 1 \<le> generateId_loop existingIds (i + 1)" by simp
    with True show ?thesis by (simp add: generateId_loop.simps [of existingIds i])
  next
    case False
    then show ?thesis by (simp add: generateId_loop.simps [of existingIds i])
  qed
qed

lemma generateId_loop_fresh: "generateId_loop ids i \<notin> set ids"
proof (induction ids i rule: generateId_loop.induct)
  case (1 existingIds i)
  show ?case
  proof (cases "i \<in> set existingIds")
    case True
    with 1 show ?thesis by (simp add: generateId_loop.simps [of existingIds i])
  next
    case False
    then show ?thesis by (simp add: generateId_loop.simps [of existingIds i])
  qed
qed

lemma generateId_loop_below:
  "i \<le> k \<Longrightarrow> k < generateId_loop ids i \<Longrightarrow> k \<in> set ids"
proof (induction ids i rule: generateId_loop.induct)
  case (1 existingIds i)
  show ?case
  proof (cases "i \<in> set existingIds")
    case True
    note mem = this
    show ?thesis
    proof (cases "k = i")
      case True
      with mem show ?thesis by simp
    next
      case False
      with "1.prems" have "i + 1 \<le> k" by simp
      moreover from "1.prems" mem have "k < generateId_loop existingIds (i + 1)"
        by (simp add: generateId_loop.simps [of existingIds i])
      ultimately show ?thesis using "1.IH" mem by blast
    qed
  next
    case False
    with "1.prems" show ?thesis by (simp add: generateId_loop.simps [of existingIds i])
  qed
qed

lemma generateId_loop_unique:
  assumes "i \<le> g" and "g \<notin> set ids" and "\<forall>k. i \<le> k \<and> k < g \<longrightarrow> k \<in> set ids"
  shows "generateId_loop ids i = g"
proof -
  let ?r = "generateId_loop ids i"
  have "\<not> ?r < g"
  proof
    assume "?r < g"
    with assms(3) generateId_loop_ge [of i ids] have "?r \<in> set ids" by blast
    with generateId_loop_fresh [of ids i] show False by simp
  qed
  moreover have "\<not> g < ?r"
  proof
    assume "g < ?r"
    with assms(1) generateId_loop_below [of i g ids] have "g \<in> set ids" by blast
    with assms(2) show False by simp
  qed
  ultimately show ?thesis by simp
qed

lemma startGTR_Inr:
  assumes "startGTR w nm scr opts ex reg = (Inr i, reg')"
  shows "\<exists>cp. spawn w = Child cp \<and> fs_exists w scr
           \<and> \<not> list_ex (\<lambda>p. name p = nm \<and> status p = online) reg
           \<and> i = (case ex of Some e \<Rightarrow> e | None \<Rightarrow> generateId reg)
           \<and> reg' = reg @ [processInfo w nm scr opts ex i cp]"
  using assms
  by (auto simp: startGTR_def readProcesses_def writeProcesses_def Let_def
           split: if_splits spawn_result.splits)

lemma startGTR_Inl:
  assumes "startGTR w nm scr opts ex reg = (Inl e, reg')"
  shows "reg' = reg"
  using assms
  by (auto simp: startGTR_def readProcesses_def writeProcesses_def Let_def
           split: if_splits spawn_result.splits)


lemma generateId_props:
  "0 \<le> generateId reg"
  "generateId reg \<notin> set (map id' reg)"
  "0 \<le> k \<Longrightarrow> k < generateId reg \<Longrightarrow> k \<in> set (map id' reg)"
  using generateId_loop_ge [of 0 "map id' reg"] generateId_loop_fresh [of "map id' reg" 0]
    generateId_loop_below [of 0 k "map id' reg"]
  by (simp_all add: generateId_def readProcesses_def)

lemma generateId_unique:
  assumes "0 \<le> g" and "g \<notin> set (map id' reg)"
    and "\<forall>k. 0 \<le> k \<and> k < g \<longrightarrow> k \<in> set (map id' reg)"
  shows "generateId reg = g"
  using generateId_loop_unique [OF assms] by (simp add: generateId_def readProcesses_def)

lemma findIndex_None: "findIndex P xs = None \<longleftrightarrow> (\<forall>x \<in> set xs. \<not> P x)"
  by (induction xs) auto

lemma findIndex_Some:
  "findIndex P xs = Some k \<Longrightarrow> k < length xs \<and> P (xs ! k) \<and> (\<forall>j<k. \<not> P (xs ! j))"
proof (induction xs arbitrary: k)
  case Nil
  then show ?case by simp
next
  case (Cons x xs)
  show ?case
  proof (cases "P x")
    case True
    with Cons.prems show ?thesis by simp
  next
    case False
    with Cons.prems obtain k' where k': "findIndex P xs = Some k'" "k = Suc k'" by auto
    from Cons.IH [OF k'(1)] False k'(2) show ?thesis
      by (auto simp: nth_Cons split: nat.splits)
  qed
qed

lemma find_findIndex: "find P xs = None \<longleftrightarrow> findIndex P xs = None"
  by (induction xs) auto

lemma find_findIndex_Some:
  "find P xs = Some x \<Longrightarrow> \<exists>k. findIndex P xs = Some k \<and> xs ! k = x"
  by (induction xs) (auto split: if_splits)

lemma findIndex_split:
  "findIndex P xs = Some k \<Longrightarrow> xs = take k xs @ (xs ! k) # drop (Suc k) xs"
  by (drule findIndex_Some) (simp add: id_take_nth_drop)

lemma splice1_ids_distinct:
  assumes "distinct (map id' xs)" and "k < length xs"
  shows "set (map id' (splice1 k xs)) = set (map id' xs) - {id' (xs ! k)}"
    and "distinct (map id' (splice1 k xs))"
proof -
  from assms(2) have xs: "xs = take k xs @ (xs ! k) # drop (Suc k) xs"
    by (rule id_take_nth_drop)
  from assms(1) have d: "distinct (map id' (take k xs @ (xs ! k) # drop (Suc k) xs))"
    using xs by simp
  from d show "distinct (map id' (splice1 k xs))" by (simp add: splice1_def)
  have "set (map id' xs) = set (map id' (take k xs @ (xs ! k) # drop (Suc k) xs))"
    using xs by simp
  with d show "set (map id' (splice1 k xs)) = set (map id' xs) - {id' (xs ! k)}"
    by (auto simp: splice1_def)
qed

lemma startGTR_distinct:
  assumes "distinct (map id' reg)"
  shows "distinct (map id' (snd (startGTR w nm scr opts None reg)))"
proof (cases "startGTR w nm scr opts None reg")
  case (Pair r reg')
  show ?thesis
  proof (cases r)
    case (Inl e)
    with Pair startGTR_Inl have "reg' = reg" by blast
    with Pair assms show ?thesis by simp
  next
    case (Inr i)
    with Pair startGTR_Inr [of w nm scr opts None reg i reg']
    obtain cp where "reg' = reg @ [processInfo w nm scr opts None (generateId reg) cp]"
      by auto
    with Pair assms generateId_props(2) [of reg] show ?thesis
      by (simp add: processInfo_def)
  qed
qed

lemma start_calls_distinct:
  "distinct (map id' reg) \<Longrightarrow> distinct (map id' (start_calls calls reg))"
proof (induction calls arbitrary: reg)
  case Nil
  then show ?case by simp
next
  case (Cons c calls)
  obtain w nm scr opts where c: "c = (w, nm, scr, opts)" by (cases c) auto
  from Cons.prems have "distinct (map id' (snd (startGTR w nm scr opts None reg)))"
    by (rule startGTR_distinct)
  then show ?case using Cons.IH c by simp
qed

lemma findProcess_Some:
  "findProcess identifier reg = Some x \<Longrightarrow> x \<in> set reg \<and> matches identifier x"
  by (auto simp: findProcess_def readProcesses_def find_Some_iff)

lemma delete_now_ids:
  assumes d: "distinct (map id' reg)"
    and f: "findProcess (Str ident) reg = Some x"
  shows "set (map id' (snd (delete_cmd now ident False reg))) = set (map id' reg) - {id' x}"
proof -
  from f have xin: "x \<in> set reg" by (simp add: findProcess_Some)
  then have "findIndex (\<lambda>p. id' p = id' x) reg \<noteq> None" by (auto simp: findIndex_None)
  then obtain k where k: "findIndex (\<lambda>p. id' p = id' x) reg = Some k" by auto
  from findIndex_Some [OF k] have kl: "k < length reg" and kid: "id' (reg ! k) = id' x"
    by simp_all
  from k f have "snd (delete_cmd now ident False reg) = splice1 k reg"
    by (simp add: delete_cmd_def readProcesses_def writeProcesses_def splice_index_def)
  with splice1_ids_distinct(1) [OF d kl] kid show ?thesis by simp
qed

lemma deleted_id_reused:
  assumes d: "distinct (map id' reg)"
    and f: "findProcess (Str ident) reg = Some x"
    and nn: "0 \<le> id' x"
    and low: "\<forall>k. 0 \<le> k \<and> k < id' x \<longrightarrow> k \<in> set (map id' reg)"
  shows "generateId (snd (delete_cmd now ident False reg)) = id' x"
proof -
  let ?f = "snd (delete_cmd now ident False reg)"
  have ids: "set (map id' ?f) = set (map id' reg) - {id' x}"
    using d f by (rule delete_now_ids)
  show ?thesis
  proof (rule generateId_unique)
    show "0 \<le> id' x" by (rule nn)
    show "id' x \<notin> set (map id' ?f)" using ids by simp
    show "\<forall>k. 0 \<le> k \<and> k < id' x \<longrightarrow> k \<in> set (map id' ?f)" using ids low by auto
  qed
qed

subsection \<open>Evaluating the examples\<close>

lemmas example_simps =
  example_world_def example_options_def example_record_def example_registry_def
  startGTR_def processInfo_def readProcesses_def writeProcesses_def generateId_def
  generateId_loop.simps instances_of_def restarts_of_def parseInt_str_def drop_ws.simps
  ws_len_def ws_seqs_def to_double_def round_int_def round_nat_def bit_length.simps
  is_digit_def digit_val_def digits_val_def findProcess_def matches_def
  splice1_def splice_index_def delete_cmd_def Let_def

subsection \<open>\<open>startGTR\<close>: frame and rejection\<close>

text \<open>
  Claim C10. A successful \<open>startGTR\<close> (with or without \<open>existingId\<close>) writes the
  registry it read with exactly one record appended at the end: the records that were there
  are the same records, at the same positions. The new record is \<open>online\<close>, has the
  returned id and the given name.
\<close>

theorem successful_start_appends_one_record:
  "startGTR w nm scr opts ex reg = (Inr i, reg') \<Longrightarrow>
     length reg' = Suc (length reg) \<and> take (length reg) reg' = reg
     \<and> (\<exists>r. reg' = reg @ [r] \<and> id' r = i \<and> name r = nm \<and> status r = online)"
proof -
  assume "startGTR w nm scr opts ex reg = (Inr i, reg')"
  from startGTR_Inr [OF this] obtain cp
    where "reg' = reg @ [processInfo w nm scr opts ex i cp]" by auto
  then show ?thesis by (simp add: processInfo_def)
qed

theorem successful_start_appends_one_record_witness:
  "startGTR example_world ''api'' ''/srv/app.js'' example_options None example_registry
     = (Inr 2, example_registry @
          [\<lparr> id' = 2, name = ''api'', pid = Some 4242, script = ''/srv/app.js'',
             logFile = ''/logs/api.log'', errorLogFile = ''/logs/api-error.log'',
             status = online, instances = Some 1, restarts = 0, memory = Finite 0,
             cpu = Finite 0, env = [], createdAt = Some 1000, updatedAt = 1001 \<rparr>])
   \<and> take (length example_registry)
        (snd (startGTR example_world ''api'' ''/srv/app.js'' example_options None
           example_registry)) = example_registry"
proof -
  let ?r = "\<lparr> id' = 2, name = ''api'', pid = Some 4242, script = ''/srv/app.js'',
             logFile = ''/logs/api.log'', errorLogFile = ''/logs/api-error.log'',
             status = online, instances = Some 1, restarts = 0, memory = Finite 0,
             cpu = Finite 0, env = [], createdAt = Some 1000, updatedAt = 1001 \<rparr>"
  have s: "startGTR example_world ''api'' ''/srv/app.js'' example_options None example_registry
     = (Inr 2, example_registry @ [?r])"
    by (simp add: example_simps)
  from successful_start_appends_one_record [OF s] s show ?thesis by simp
qed

text \<open>
  Claim C5, as stated, fails: \<open>startGTR\<close> tests the script first, so a call whose script
  does not exist is answered "does not exist" even when a record of that name is online.
\<close>

theorem start_online_name_counterexample:
  "list_ex (\<lambda>p. name p = ''app'' \<and> status p = online) example_registry
   \<and> startGTR example_world ''app'' ''/srv/missing.js'' example_options None example_registry
       = (Inl ScriptMissing, example_registry)
   \<and> fst (startGTR example_world ''app'' ''/srv/missing.js'' example_options None
        example_registry) \<noteq> Inl AlreadyRunning"
  by (simp add: example_simps)

text \<open>
  Claim C5, amended. When a record with name \<open>n\<close> and status \<open>online\<close> is in the
  registry, every \<open>startGTR\<close> with name \<open>n\<close> is rejected and leaves the registry as it
  was: with \<open>AlreadyRunning\<close> when the script exists, with \<open>ScriptMissing\<close> when it
  does not.
\<close>

theorem start_online_name_rejected:
  "p \<in> set reg \<Longrightarrow> name p = nm \<Longrightarrow> status p = online \<Longrightarrow>
     startGTR w nm scr opts ex reg
       = (Inl (if fs_exists w scr then AlreadyRunning else ScriptMissing), reg)"
  by (auto simp: startGTR_def readProcesses_def list_ex_iff)

theorem start_online_name_rejected_witness:
  "example_record \<in> set example_registry \<and> name example_record = ''app''
   \<and> status example_record = online
   \<and> startGTR example_world ''app'' ''/srv/app.js'' example_options None example_registry
       = (Inl AlreadyRunning, example_registry)"
proof -
  have a: "example_record \<in> set example_registry" by (simp add: example_registry_def)
  have b: "name example_record = ''app''" and c: "status example_record = online"
    by (simp_all add: example_record_def)
  have e: "fs_exists example_world ''/srv/app.js''" by (simp add: example_world_def)
  from start_online_name_rejected [OF a b c, of example_world "''/srv/app.js''" example_options None] e
  show ?thesis using a b c by simp
qed

subsection \<open>\<open>prune\<close>\<close>

lemma filter_length_eq: "length (filter P xs) = length xs \<longleftrightarrow> filter P xs = xs"
proof
  show "length (filter P xs) = length xs \<Longrightarrow> filter P xs = xs"
  proof (induction xs)
    case Nil
    then show ?case by simp
  next
    case (Cons x xs)
    have le: "length (filter P xs) \<le> length xs" by (rule length_filter_le)
    show ?case
    proof (cases "P x")
      case True
      with Cons show ?thesis by simp
    next
      case False
      with Cons.prems have "length (filter P xs) = Suc (length xs)" by simp
      with le show ?thesis by simp
    qed
  qed
next
  assume "filter P xs = xs"
  then have "length (filter P xs) = length (xs)" by (rule arg_cong)
  then show "length (filter P xs) = length xs" .
qed

text \<open>
  Claim C6. \<open>prune\<close> leaves exactly the \<open>online\<close> records, in their order; it reports
  how many records it removed, and reports nothing to prune exactly when every record is
  \<open>online\<close>, in which case the registry is untouched; a second \<open>prune\<close> right after
  the first removes nothing.
\<close>

theorem prune_keeps_online_idempotent:
  "snd (prune reg) = filter (\<lambda>p. status p = online) reg
   \<and> set (snd (prune reg)) = {p \<in> set reg. status p = online}
   \<and> (fst (prune reg) = NothingToPrune \<longleftrightarrow> (\<forall>p \<in> set reg. status p = online))
   \<and> (fst (prune reg) \<noteq> NothingToPrune \<longrightarrow>
        fst (prune reg) = Pruned (length (filter (\<lambda>p. status p \<noteq> online) reg)))
   \<and> (list_all (\<lambda>p. status p = online) reg \<longrightarrow> prune reg = (NothingToPrune, reg))
   \<and> prune (snd (prune reg)) = (NothingToPrune, snd (prune reg))"
proof -
  let ?P = "\<lambda>p. status p = online"
  have len: "length (filter ?P reg) + length (filter (\<lambda>p. status p \<noteq> online) reg) = length reg"
    using sum_length_filter_compl [of ?P reg] by simp
  have 1: "snd (prune reg) = filter ?P reg"
    by (simp add: prune_def readProcesses_def writeProcesses_def Let_def filter_length_eq)
  have 2: "fst (prune reg) = NothingToPrune \<longleftrightarrow> (\<forall>p \<in> set reg. status p = online)"
    by (simp add: prune_def readProcesses_def writeProcesses_def Let_def filter_length_eq
        filter_id_conv)
  have 3: "fst (prune reg) \<noteq> NothingToPrune \<longrightarrow>
        fst (prune reg) = Pruned (length (filter (\<lambda>p. status p \<noteq> online) reg))"
  proof -
    from len have "length reg - length (filter ?P reg)
        = length (filter (\<lambda>p. status p \<noteq> online) reg)" by arith
    then show ?thesis
      by (simp add: prune_def readProcesses_def writeProcesses_def Let_def)
  qed
  have 4: "prune (filter ?P reg) = (NothingToPrune, filter ?P reg)"
    by (simp add: prune_def readProcesses_def writeProcesses_def Let_def)
  have 5: "list_all ?P reg \<longrightarrow> prune reg = (NothingToPrune, reg)"
    by (simp add: prune_def readProcesses_def writeProcesses_def Let_def filter_length_eq
        filter_id_conv list_all_iff)
  from 1 2 3 4 5 show ?thesis by simp
qed

theorem prune_keeps_online_idempotent_witness:
  "prune example_registry = (Pruned 1, [example_record])
   \<and> fst (prune example_registry) \<noteq> NothingToPrune
   \<and> length (filter (\<lambda>p. status p \<noteq> online) example_registry) = 1
   \<and> prune (snd (prune example_registry)) = (NothingToPrune, [example_record])
   \<and> list_all (\<lambda>p. status p = online) [example_record]
   \<and> prune [example_record] = (NothingToPrune, [example_record])"
proof -
  have p: "prune example_registry = (Pruned 1, [example_record])"
    by (simp add: prune_def readProcesses_def writeProcesses_def example_registry_def
        example_record_def)
  then have sp: "snd (prune example_registry) = [example_record]"
    and np: "fst (prune example_registry) \<noteq> NothingToPrune" by simp_all
  from prune_keeps_online_idempotent [of example_registry] np
  have "fst (prune example_registry)
      = Pruned (length (filter (\<lambda>p. status p \<noteq> online) example_registry))"
    by blast
  with p have n: "length (filter (\<lambda>p. status p \<noteq> online) example_registry) = 1" by simp
  from prune_keeps_online_idempotent [of example_registry]
  have "prune (snd (prune example_registry)) = (NothingToPrune, snd (prune example_registry))"
    by blast
  then have i: "prune (snd (prune example_registry)) = (NothingToPrune, [example_record])"
    unfolding sp by simp
  have a: "list_all (\<lambda>p. status p = online) [example_record]"
    by (simp add: example_record_def)
  with prune_keeps_online_idempotent [of "[example_record]"]
  have j: "prune [example_record] = (NothingToPrune, [example_record])" by blast
  from p np n i a j show ?thesis by blast
qed

subsection \<open>Resolving an identifier\<close>

lemma matches_Str:
  "matches (Str s) p =
     (case parseInt_str s of
        PNaN \<Rightarrow> name p = s
      | PInfinity \<Rightarrow> name p = s
      | PInt n \<Rightarrow> id' p = n \<or> name p = s \<or> pid p = Some n)"
  by (auto simp: matches_def Let_def split: parsed.splits option.splits)

lemma stopGTR_NotFound:
  "fst (stopGTR now identifier reg) = Inl NotFound \<longleftrightarrow> findProcess identifier reg = None"
  by (simp add: stopGTR_def Let_def split: option.splits)

text \<open>
  Claim C1, as stated, fails in its last part: the name is compared whatever
  \<open>parseInt\<close> returns. The identifier \<open>7\<close> parses as the integer 7 and resolves to a
  record named \<open>7\<close> whose id is 0 and whose pid is 4000, also when a later record has the
  id 7.
\<close>

theorem numeric_identifier_matched_by_name_counterexample:
  "parseInt (Str ''7'') = PInt 7
   \<and> findProcess (Str ''7'')
        [example_record\<lparr>name := ''7''\<rparr>, example_record\<lparr>id' := 7, name := ''web''\<rparr>]
       = Some (example_record\<lparr>name := ''7''\<rparr>)
   \<and> id' (example_record\<lparr>name := ''7''\<rparr>) = 0
   \<and> pid (example_record\<lparr>name := ''7''\<rparr>) = Some 4000
   \<and> name (example_record\<lparr>name := ''7''\<rparr>) = ''7''"
  by (simp add: example_simps)

text \<open>
  Claim C1, amended. Resolution returns the first record, in the order of the registry, that
  the identifier matches. An identifier for which \<open>parseInt(identifier, 10)\<close> is
  \<open>NaN\<close> or an infinity matches a record by its name only; an identifier for which it is
  the integer \<open>n\<close> (white space and a sign skipped, the leading decimal digits read and
  rounded to a double) matches a record whose id is \<open>n\<close>, whose name is the identifier,
  or whose pid is \<open>n\<close>. \<open>stop\<close>, \<open>restart\<close>, \<open>delete\<close>, \<open>show\<close> and
  \<open>logs\<close> answer \<open>NotFound\<close> exactly when no record matches.
\<close>

theorem findProcess_resolution:
  "findProcess (Str s) reg =
     find (\<lambda>p. case parseInt_str s of
                 PNaN \<Rightarrow> name p = s
               | PInfinity \<Rightarrow> name p = s
               | PInt n \<Rightarrow> id' p = n \<or> name p = s \<or> pid p = Some n) reg
   \<and> (findProcess (Str s) reg = None) = (\<not> list_ex (matches (Str s)) reg)
   \<and> (fst (stopGTR now (Str s) reg) = Inl NotFound) = (findProcess (Str s) reg = None)
   \<and> (fst (restart_begin now s reg) = Inl NotFound) = (findProcess (Str s) reg = None)
   \<and> (fst (delete_cmd now s stop_option reg) = Inl NotFound) = (findProcess (Str s) reg = None)
   \<and> (show_cmd s reg = Inl NotFound) = (findProcess (Str s) reg = None)
   \<and> (logs_cmd existsSync s opt_e opt_f opt_c reg = Inl NotFound)
       = (findProcess (Str s) reg = None)"
proof (intro conjI)
  have "matches (Str s) = (\<lambda>p. case parseInt_str s of
                 PNaN \<Rightarrow> name p = s
               | PInfinity \<Rightarrow> name p = s
               | PInt n \<Rightarrow> id' p = n \<or> name p = s \<or> pid p = Some n)"
    by (rule ext) (rule matches_Str)
  then show "findProcess (Str s) reg =
     find (\<lambda>p. case parseInt_str s of
                 PNaN \<Rightarrow> name p = s
               | PInfinity \<Rightarrow> name p = s
               | PInt n \<Rightarrow> id' p = n \<or> name p = s \<or> pid p = Some n) reg"
    by (simp add: findProcess_def readProcesses_def)
  show "(findProcess (Str s) reg = None) = (\<not> list_ex (matches (Str s)) reg)"
    by (auto simp: findProcess_def readProcesses_def find_None_iff list_ex_iff)
  show "(fst (stopGTR now (Str s) reg) = Inl NotFound) = (findProcess (Str s) reg = None)"
    by (rule stopGTR_NotFound)
  show "(fst (restart_begin now s reg) = Inl NotFound) = (findProcess (Str s) reg = None)"
    by (simp add: restart_begin_def Let_def split: option.splits)
  show "(fst (delete_cmd now s stop_option reg) = Inl NotFound)
      = (findProcess (Str s) reg = None)"
    by (simp add: delete_cmd_def Let_def split: option.splits)
  show "(show_cmd s reg = Inl NotFound) = (findProcess (Str s) reg = None)"
    by (simp add: show_cmd_def split: option.splits)
  show "(logs_cmd existsSync s opt_e opt_f opt_c reg = Inl NotFound)
      = (findProcess (Str s) reg = None)"
    by (simp add: logs_cmd_def Let_def split: option.splits)
qed

theorem findProcess_resolution_witness:
  "parseInt_str ''worker'' = PNaN
   \<and> findProcess (Str ''worker'') example_registry = Some (example_registry ! 1)
   \<and> parseInt_str [CHR 0xC2, CHR 0xA0, CHR ''4'', CHR ''0'', CHR ''0'', CHR ''1'', CHR ''x'']
       = PInt 4001
   \<and> findProcess
        (Str [CHR 0xC2, CHR 0xA0, CHR ''4'', CHR ''0'', CHR ''0'', CHR ''1'', CHR ''x''])
        example_registry = Some (example_registry ! 1)
   \<and> parseInt_str ''9007199254740993'' = PInt 9007199254740992
   \<and> findProcess (Str ''9007199254740993'') [example_record\<lparr>id' := 9007199254740992\<rparr>]
       = Some (example_record\<lparr>id' := 9007199254740992\<rparr>)
   \<and> findProcess (Str ''9'') example_registry = None
   \<and> fst (stopGTR 7 (Str ''9'') example_registry) = Inl NotFound
   \<and> show_cmd ''9'' example_registry = Inl NotFound"
proof -
  let ?nb = "[CHR 0xC2, CHR 0xA0, CHR ''4'', CHR ''0'', CHR ''0'', CHR ''1'', CHR ''x'']"
  let ?big = "[example_record\<lparr>id' := 9007199254740992\<rparr>]"
  note T = findProcess_resolution [of _ _ 7]
  have n: "parseInt_str ''worker'' = PNaN" "parseInt_str ?nb = PInt 4001"
    "parseInt_str ''9'' = PInt 9" "parseInt_str ''9007199254740993'' = PInt 9007199254740992"
    by (simp_all add: example_simps)
  have a: "findProcess (Str ''worker'') example_registry = Some (example_registry ! 1)"
    using T [of "''worker''" example_registry] n
    by (simp add: example_registry_def example_record_def)
  have b: "findProcess (Str ?nb) example_registry = Some (example_registry ! 1)"
    using T [of ?nb example_registry] n by (simp add: example_registry_def example_record_def)
  have c: "findProcess (Str ''9'') example_registry = None"
    using T [of "''9''" example_registry] n
    by (simp add: example_registry_def example_record_def)
  have d: "findProcess (Str ''9007199254740993'') ?big = Some (example_record\<lparr>id' := 9007199254740992\<rparr>)"
    using T [of "''9007199254740993''" ?big] n by (simp add: example_record_def)
  from T [of "''9''" example_registry] c
  have "fst (stopGTR 7 (Str ''9'') example_registry) = Inl NotFound"
    and "show_cmd ''9'' example_registry = Inl NotFound"
    by simp_all
  with n a b c d show ?thesis by simp
qed

subsection \<open>\<open>stopGTR\<close> and the file\<close>

lemma stopGTR_file_unchanged: "snd (stopGTR now identifier reg) = reg"
  by (simp add: stopGTR_def readProcesses_def writeProcesses_def Let_def split: option.splits)

text \<open>
  Claim C9 at a concrete input. \<open>startGTR\<close> writes a record without \<open>pid\<close> when
  \<open>spawn\<close> returns a child whose \<open>pid\<close> is undefined. \<open>stopGTR\<close> on that record
  returns \<open>true\<close> with no signal requested, and the object it changed in memory is
  \<open>stopped\<close>; the file it wrote still holds the record as \<open>online\<close>.
\<close>

theorem stop_without_pid_leaves_file_online:
  "startGTR (example_world\<lparr>spawn := Child None\<rparr>) ''app'' ''/srv/app.js'' example_options None []
     = (Inr 0, [example_record\<lparr>pid := None, createdAt := Some 1000, updatedAt := 1001\<rparr>])
   \<and> stopGTR 9000 (Str ''app'')
        [example_record\<lparr>pid := None, createdAt := Some 1000, updatedAt := 1001\<rparr>]
     = (Inr (NoSignal (example_record\<lparr>pid := None, createdAt := Some 1000,
                         status := stopped, updatedAt := 9000\<rparr>)),
        [example_record\<lparr>pid := None, createdAt := Some 1000, updatedAt := 1001\<rparr>])
   \<and> map status (snd (stopGTR 9000 (Str ''app'')
        [example_record\<lparr>pid := None, createdAt := Some 1000, updatedAt := 1001\<rparr>]))
     = [online]"
  by (simp add: example_simps stopGTR_def truthy_pid_def)

subsection \<open>The \<open>restart\<close> command\<close>

lemma findIndex_update:
  "findIndex P xs = Some k \<Longrightarrow> P y \<Longrightarrow> findIndex P (xs[k := y]) = Some k"
proof (induction xs arbitrary: k)
  case Nil
  then show ?case by simp
next
  case (Cons x xs)
  show ?case
  proof (cases "P x")
    case True
    with Cons.prems show ?thesis by simp
  next
    case False
    with Cons.prems obtain k' where k': "findIndex P xs = Some k'" "k = Suc k'" by auto
    from Cons.IH [OF k'(1) Cons.prems(2)] False k'(2) show ?thesis by simp
  qed
qed

lemma splice1_update: "splice1 k (xs[k := y]) = splice1 k xs"
  by (simp add: splice1_def)

lemma restart_timer_cases:
  "restart_timer w x reg =
     (case findIndex (\<lambda>p. id' p = id' x) reg of
        None \<Rightarrow> (Inl RestartLost, reg)
      | Some k \<Rightarrow>
          startGTR w (name x) (script x) (restart_options x) (Some (id' x)) (splice1 k reg))"
proof (cases "findIndex (\<lambda>p. id' p = id' x) reg")
  case None
  then have "find (\<lambda>p. id' p = id' x) reg = None" by (simp add: find_findIndex)
  with None show ?thesis by (simp add: restart_timer_def readProcesses_def)
next
  case (Some k)
  then have "find (\<lambda>p. id' p = id' x) reg \<noteq> None" by (simp add: find_findIndex)
  then obtain u where "find (\<lambda>p. id' p = id' x) reg = Some u" by auto
  with Some show ?thesis
    by (simp add: restart_timer_def readProcesses_def writeProcesses_def)
qed

lemma restart_unfold:
  "findProcess (Str ident) reg = Some x \<Longrightarrow>
     restart w now outcome t ident reg
       = restart_timer w x (run_pending outcome t (fst (stopGTR now (Num (id' x)) reg)) reg)"
  by (simp add: restart_def restart_begin_def Let_def stopGTR_file_unchanged)

text \<open>
  Claim C2, as stated, fails. The record \<open>app\<close> is \<open>online\<close>; \<open>restart app\<close> calls
  \<open>stopGTR\<close>, whose write leaves the file as it was; \<open>kill\<close> and \<open>kill -9\<close> both
  fail (the process is gone already), so no callback writes \<open>stopped\<close>. When the timer
  fires the record is still \<open>online\<close> in the file, and the callback removes it and starts
  the new process all the same.
\<close>

theorem restart_while_online_counterexample:
  "restart_begin 2000 ''app'' [example_record]
     = (Inr (example_record,
             Inr (KillRequested (example_record\<lparr>status := stopping, updatedAt := 2000\<rparr>))),
        [example_record])
   \<and> run_pending KillFailedForceFailed 2500
        (Inr (KillRequested (example_record\<lparr>status := stopping, updatedAt := 2000\<rparr>)))
        [example_record] = [example_record]
   \<and> map status [example_record] = [online]
   \<and> restart_timer example_world example_record [example_record]
     = (Inr 0, [example_record\<lparr>pid := Some 4242, restarts := 1, updatedAt := 1001\<rparr>])
   \<and> restart example_world 2000 KillFailedForceFailed 2500 ''app'' [example_record]
     = (Inr 0, [example_record\<lparr>pid := Some 4242, restarts := 1, updatedAt := 1001\<rparr>])"
  by (simp add: example_simps restart_def restart_begin_def stopGTR_def truthy_pid_def
      run_pending_def kill_callback_def restart_timer_def restart_options_def json_number_def)

lemma find_nth_findIndex: "find P xs = map_option (\<lambda>j. xs ! j) (findIndex P xs)"
  by (induction xs) (simp_all add: option.map_comp comp_def)

lemma findIndex_update_same:
  "k < length xs \<Longrightarrow> P y = P (xs ! k) \<Longrightarrow> findIndex P (xs[k := y]) = findIndex P xs"
proof (induction xs arbitrary: k)
  case Nil
  then show ?case by simp
next
  case (Cons x xs)
  then show ?case by (cases k) simp_all
qed

lemma matches_status: "matches ident (p\<lparr>status := a\<rparr>) = matches ident p"
  by (simp add: matches_def)

lemma restart_timer_record_status: "restart_timer w (x\<lparr>status := a\<rparr>) reg = restart_timer w x reg"
  by (simp add: restart_timer_cases restart_options_def split: option.splits)

lemma with_status_cases:
  "with_status i s reg = reg
   \<or> (\<exists>k. findIndex (\<lambda>p. id' p = i) reg = Some k \<and> k < length reg \<and> id' (reg ! k) = i
          \<and> with_status i s reg = reg[k := (reg ! k)\<lparr>status := s\<rparr>])"
proof (cases "findIndex (\<lambda>p. id' p = i) reg")
  case None
  then show ?thesis by (simp add: with_status_def)
next
  case (Some k)
  from findIndex_Some [OF Some] Some show ?thesis by (simp add: with_status_def)
qed

text \<open>Resolution does not read the status: in the registry with another status in one record,
  an ident resolves to the record at the same place.\<close>

lemma findProcess_with_status:
  "findProcess ident (with_status i s reg)
     = (case findProcess ident reg of
          None \<Rightarrow> None
        | Some y \<Rightarrow> Some (y\<lparr>status := status (the (findProcess ident (with_status i s reg)))\<rparr>))"
proof -
  from with_status_cases [of i s reg] show ?thesis
  proof
    assume "with_status i s reg = reg"
    then show ?thesis by (simp split: option.splits)
  next
    assume "\<exists>k. findIndex (\<lambda>p. id' p = i) reg = Some k \<and> k < length reg \<and> id' (reg ! k) = i
          \<and> with_status i s reg = reg[k := (reg ! k)\<lparr>status := s\<rparr>]"
    then obtain k where k: "k < length reg"
      and w: "with_status i s reg = reg[k := (reg ! k)\<lparr>status := s\<rparr>]" by blast
    let ?P = "matches ident"
    have fi: "findIndex ?P (reg[k := (reg ! k)\<lparr>status := s\<rparr>]) = findIndex ?P reg"
      using k by (intro findIndex_update_same) (simp_all add: matches_status)
    show ?thesis
    proof (cases "findIndex ?P reg")
      case None
      with fi w show ?thesis
        by (simp add: findProcess_def readProcesses_def find_nth_findIndex)
    next
      case (Some j)
      from findIndex_Some [OF Some] have j: "j < length reg" by simp
      have "(reg[k := (reg ! k)\<lparr>status := s\<rparr>]) ! j
          = (reg ! j)\<lparr>status := status ((reg[k := (reg ! k)\<lparr>status := s\<rparr>]) ! j)\<rparr>"
        using j k by (cases "j = k") simp_all
      with Some fi w show ?thesis
        by (simp add: findProcess_def readProcesses_def find_nth_findIndex)
    qed
  qed
qed

lemma stopGTR_with_status:
  "fst (stopGTR now ident (with_status i s reg)) = fst (stopGTR now ident reg)"
proof (cases "findProcess ident reg")
  case None
  with findProcess_with_status [of ident i s reg] show ?thesis
    by (simp add: stopGTR_def Let_def)
next
  case (Some y)
  with findProcess_with_status [of ident i s reg] obtain a
    where "findProcess ident (with_status i s reg) = Some (y\<lparr>status := a\<rparr>)" by auto
  with Some show ?thesis by (simp add: stopGTR_def Let_def truthy_pid_def)
qed

text \<open>The timer of \<open>restart\<close> does not read the status of the record it removes.\<close>

lemma restart_timer_with_status:
  "restart_timer w x (with_status (id' x) s reg) = restart_timer w x reg"
proof (cases "findIndex (\<lambda>p. id' p = id' x) reg")
  case None
  then show ?thesis by (simp add: with_status_def)
next
  case (Some k)
  let ?y = "(reg ! k)\<lparr>status := s\<rparr>"
  from findIndex_Some [OF Some] have "id' ?y = id' x" by simp
  with Some have "findIndex (\<lambda>p. id' p = id' x) (reg[k := ?y]) = Some k"
    by (intro findIndex_update) simp_all
  with Some show ?thesis
    by (simp add: with_status_def restart_timer_cases splice1_update)
qed

lemma mark_stopped_with_status:
  "restart_timer w x (mark_stopped t a (with_status (id' x) s reg))
     = restart_timer w x (mark_stopped t a reg)"
proof -
  from with_status_cases [of "id' x" s reg] show ?thesis
  proof
    assume "with_status (id' x) s reg = reg"
    then show ?thesis by simp
  next
    assume "\<exists>k. findIndex (\<lambda>p. id' p = id' x) reg = Some k \<and> k < length reg
          \<and> id' (reg ! k) = id' x
          \<and> with_status (id' x) s reg = reg[k := (reg ! k)\<lparr>status := s\<rparr>]"
    then obtain k where fk: "findIndex (\<lambda>p. id' p = id' x) reg = Some k"
      and k: "k < length reg" and ik: "id' (reg ! k) = id' x"
      and w: "with_status (id' x) s reg = reg[k := (reg ! k)\<lparr>status := s\<rparr>]" by blast
    let ?reg' = "reg[k := (reg ! k)\<lparr>status := s\<rparr>]"
    have fa: "findIndex (\<lambda>p. id' p = a) ?reg' = findIndex (\<lambda>p. id' p = a) reg"
      using k by (intro findIndex_update_same) simp_all
    show ?thesis
    proof (cases "findIndex (\<lambda>p. id' p = a) reg")
      case None
      with fa w restart_timer_with_status [of w x s reg] show ?thesis
        by (simp add: mark_stopped_def readProcesses_def)
    next
      case (Some j)
      from findIndex_Some [OF Some] have j: "j < length reg" and ij: "id' (reg ! j) = a"
        by simp_all
      show ?thesis
      proof (cases "j = k")
        case True
        with Some fa w k show ?thesis
          by (simp add: mark_stopped_def readProcesses_def writeProcesses_def)
      next
        case False
        let ?m = "reg[j := (reg ! j)\<lparr>status := stopped, updatedAt := t\<rparr>]"
        have m: "mark_stopped t a reg = ?m"
          using Some by (simp add: mark_stopped_def readProcesses_def writeProcesses_def)
        have "findIndex (\<lambda>p. id' p = id' x) ?m = findIndex (\<lambda>p. id' p = id' x) reg"
          using j by (intro findIndex_update_same) simp_all
        with fk False have ws: "with_status (id' x) s ?m = ?m[k := (reg ! k)\<lparr>status := s\<rparr>]"
          by (simp add: with_status_def)
        have "mark_stopped t a ?reg' = ?reg'[j := (reg ! j)\<lparr>status := stopped, updatedAt := t\<rparr>]"
          using Some fa False
          by (simp add: mark_stopped_def readProcesses_def writeProcesses_def)
        also have "\<dots> = ?m[k := (reg ! k)\<lparr>status := s\<rparr>]"
          using False by (simp add: list_update_swap)
        finally have "mark_stopped t a (with_status (id' x) s reg) = with_status (id' x) s ?m"
          using w ws by simp
        with m restart_timer_with_status [of w x s ?m] show ?thesis by simp
      qed
    qed
  qed
qed

lemma run_pending_with_status:
  "restart_timer w x (run_pending outcome t sr (with_status (id' x) s reg))
     = restart_timer w x (run_pending outcome t sr reg)"
proof (cases sr)
  case (Inl e)
  then show ?thesis by (simp add: run_pending_def restart_timer_with_status)
next
  case (Inr pd)
  show ?thesis
  proof (cases pd)
    case (KillRequested process)
    with Inr show ?thesis
      by (cases outcome)
        (simp_all add: run_pending_def kill_callback_def mark_stopped_with_status
          restart_timer_with_status)
  next
    case (NoSignal process)
    with Inr show ?thesis by (simp add: run_pending_def restart_timer_with_status)
  qed
qed

lemma restart_with_status:
  assumes f: "findProcess (Str ident) reg = Some x"
  shows "restart w now outcome t ident (with_status (id' x) s reg)
     = restart w now outcome t ident reg"
proof -
  let ?reg' = "with_status (id' x) s reg"
  from f findProcess_with_status [of "Str ident" "id' x" s reg] obtain a
    where f': "findProcess (Str ident) ?reg' = Some (x\<lparr>status := a\<rparr>)" by auto
  have "restart w now outcome t ident ?reg'
      = restart_timer w (x\<lparr>status := a\<rparr>)
          (run_pending outcome t (fst (stopGTR now (Num (id' (x\<lparr>status := a\<rparr>))) ?reg')) ?reg')"
    using f' by (rule restart_unfold)
  also have "\<dots> = restart_timer w x
          (run_pending outcome t (fst (stopGTR now (Num (id' x)) reg)) ?reg')"
    by (simp add: restart_timer_record_status stopGTR_with_status)
  also have "\<dots> = restart_timer w x
          (run_pending outcome t (fst (stopGTR now (Num (id' x)) reg)) reg)"
    by (rule run_pending_with_status)
  also have "\<dots> = restart w now outcome t ident reg"
    using f by (rule restart_unfold [symmetric])
  finally show ?thesis .
qed

text \<open>
  Claim C2, amended. \<open>restart\<close> does the removal of the old record and the start of the
  fresh one in the function it hands to a timer, and nothing on the way reads the status of
  the record: the result of \<open>restart\<close> and the file it leaves are the same whatever
  status the first record with the matched id has (\<open>online\<close>, \<open>stopping\<close> or
  \<open>stopped\<close>), and so are the result and the file of the timer's function, on any state
  of the file at the moment the timer fires.
\<close>

theorem restart_ignores_status:
  "(findProcess (Str ident) reg = Some x \<longrightarrow>
      restart w now outcome t ident (with_status (id' x) s reg)
        = restart w now outcome t ident reg)
   \<and> restart_timer w x (with_status (id' x) s reg2) = restart_timer w x reg2"
  using restart_with_status [of ident reg x w now outcome t s]
    restart_timer_with_status [of w x s reg2]
  by blast

theorem restart_ignores_status_witness:
  "findProcess (Str ''app'') [example_record] = Some example_record
   \<and> with_status 0 stopping [example_record] = [example_record\<lparr>status := stopping\<rparr>]
   \<and> with_status 0 stopped [example_record] = [example_record\<lparr>status := stopped\<rparr>]
   \<and> restart example_world 2000 KillFailedForceFailed 2500 ''app'' [example_record]
     = (Inr 0, [example_record\<lparr>pid := Some 4242, restarts := 1, updatedAt := 1001\<rparr>])
   \<and> restart example_world 2000 KillFailedForceFailed 2500 ''app''
        [example_record\<lparr>status := stopping\<rparr>]
     = (Inr 0, [example_record\<lparr>pid := Some 4242, restarts := 1, updatedAt := 1001\<rparr>])
   \<and> restart example_world 2000 KillFailedForceFailed 2500 ''app''
        [example_record\<lparr>status := stopped\<rparr>]
     = (Inr 0, [example_record\<lparr>pid := Some 4242, restarts := 1, updatedAt := 1001\<rparr>])
   \<and> restart_timer example_world example_record [example_record\<lparr>status := stopping\<rparr>]
     = (Inr 0, [example_record\<lparr>pid := Some 4242, restarts := 1, updatedAt := 1001\<rparr>])"
proof -
  let ?new = "[example_record\<lparr>pid := Some 4242, restarts := 1, updatedAt := 1001\<rparr>]"
  have i: "id' example_record = 0" by (simp add: example_record_def)
  have f: "findProcess (Str ''app'') [example_record] = Some example_record"
    by (simp add: example_simps)
  have a: "with_status 0 stopping [example_record] = [example_record\<lparr>status := stopping\<rparr>]"
    and b: "with_status 0 stopped [example_record] = [example_record\<lparr>status := stopped\<rparr>]"
    by (simp_all add: with_status_def example_record_def)
  have r: "restart example_world 2000 KillFailedForceFailed 2500 ''app'' [example_record]
      = (Inr 0, ?new)"
    by (simp add: example_simps restart_def restart_begin_def stopGTR_def truthy_pid_def
      run_pending_def kill_callback_def restart_timer_def restart_options_def json_number_def)
  have tm: "restart_timer example_world example_record [example_record] = (Inr 0, ?new)"
    by (simp add: example_simps restart_timer_def restart_options_def json_number_def)
  note T = restart_ignores_status
    [of "''app''" "[example_record]" example_record example_world 2000 KillFailedForceFailed 2500
      _ "[example_record]"]
  from T [of stopping] f
  have 1: "restart example_world 2000 KillFailedForceFailed 2500 ''app''
        [example_record\<lparr>status := stopping\<rparr>] = (Inr 0, ?new)"
    and 3: "restart_timer example_world example_record [example_record\<lparr>status := stopping\<rparr>]
      = (Inr 0, ?new)"
    unfolding i a r tm by simp_all
  from T [of stopped] f
  have 2: "restart example_world 2000 KillFailedForceFailed 2500 ''app''
        [example_record\<lparr>status := stopped\<rparr>] = (Inr 0, ?new)"
    unfolding i b r by simp
  from f a b r 1 2 3 show ?thesis by simp
qed

subsection \<open>\<open>save\<close> and \<open>resurrect\<close>\<close>










subsection \<open>\<open>monitorProcesses\<close>\<close>

lemma monitorProcesses_lengths:
  "length (fst (monitorProcesses pf probes reg)) = length reg"
  "length (snd (monitorProcesses pf probes reg)) = length reg"
  by (simp_all add: monitorProcesses_def readProcesses_def writeProcesses_def Let_def)

lemma monitor_sync_alive:
  "reports_alive (alive_reply pr) \<Longrightarrow> monitor_sync pr p = (p, False)"
  by (auto simp: monitor_sync_def reports_alive_def)

lemma usage_callback_failed:
  "usage_failed (usage_reply pr) \<Longrightarrow> usage_callback pf pr p = p"
  by (auto simp: usage_callback_def usage_failed_def Let_def split: exec_reply.splits)

lemma monitor_async_alive_failed:
  assumes "status p = online" and "reports_alive (alive_reply pr)"
    and "usage_failed (usage_reply pr)"
  shows "monitor_async pf pr p = p"
  using assms
  by (auto simp: monitor_async_def monitored_def reports_alive_def usage_callback_failed
      split: exec_reply.splits)

lemma monitorProcesses_nth:
  assumes "k < length reg"
  shows "fst (monitorProcesses pf probes reg) ! k = reg ! k
      \<or> fst (monitorProcesses pf probes reg) ! k = fst (monitor_sync (probes k) (reg ! k))"
    and "snd (monitorProcesses pf probes reg) ! k
      = monitor_async pf (probes k) (fst (monitor_sync (probes k) (reg ! k)))"
  using assms
  by (simp_all add: monitorProcesses_def readProcesses_def writeProcesses_def Let_def)

text \<open>The update itself, on an output with a header and one line of values.\<close>

lemma usage_callback_example:
  "usage_callback pf
     \<lparr> alive_reply = ExecDone False '' 4000'',
       usage_reply = ExecDone False ''%CPU %MEM\<newline> 2.5  1.0\<newline>'',
       t_seen = 5, t_done = 6 \<rparr>
     example_record
   = example_record\<lparr>cpu := pf (Some ''2.5''), memory := pf (Some ''1.0''), updatedAt := 6\<rparr>"
proof -
  note ws_simps = js_trim_def drop_ws.simps drop_ws_end.simps ws_len_def ws_len_end_def
    ws_seqs_def
  have a: "js_trim ''%CPU %MEM\<newline> 2.5  1.0\<newline>'' = ''%CPU %MEM\<newline> 2.5  1.0''"
    by (simp add: ws_simps)
  have b: "split_on (CHR 0x0A) ''%CPU %MEM\<newline> 2.5  1.0'' = [''%CPU %MEM'', '' 2.5  1.0'']"
    by simp
  have c: "js_trim '' 2.5  1.0'' = ''2.5  1.0''"
    by (simp add: ws_simps)
  have d: "split_ws ''2.5  1.0'' = [''2.5'', ''1.0'']"
    by (simp add: split_ws_def drop_ws.simps ws_len_def ws_seqs_def)
  show ?thesis
    by (simp add: usage_callback_def a b c d element_def example_record_def)
qed

text \<open>
  Claim C8. Take a poll, a record that is \<open>online\<close>, a liveness query that finds its
  process, and a usage query that fails (\<open>exec\<close> throws, the callback gets an error) or
  returns no line of values. Then the record is left as it was, \<open>cpu\<close> and \<open>memory\<close>
  included, both in the file after the poll and in the array the callbacks work on.
  \<open>monitorProcesses\<close> has no error result: the failure ends in the callback.
\<close>

theorem failed_usage_query_keeps_metrics:
  assumes "k < length reg" and "status (reg ! k) = online"
    and "reports_alive (alive_reply (probes k))"
    and "usage_failed (usage_reply (probes k))"
  shows "length (fst (monitorProcesses pf probes reg)) = length reg
     \<and> fst (monitorProcesses pf probes reg) ! k = reg ! k
     \<and> cpu (fst (monitorProcesses pf probes reg) ! k) = cpu (reg ! k)
     \<and> memory (fst (monitorProcesses pf probes reg) ! k) = memory (reg ! k)
     \<and> length (snd (monitorProcesses pf probes reg)) = length reg
     \<and> snd (monitorProcesses pf probes reg) ! k = reg ! k
     \<and> cpu (snd (monitorProcesses pf probes reg) ! k) = cpu (reg ! k)
     \<and> memory (snd (monitorProcesses pf probes reg) ! k) = memory (reg ! k)"
proof -
  have s: "monitor_sync (probes k) (reg ! k) = (reg ! k, False)"
    using assms(3) by (rule monitor_sync_alive)
  have a: "fst (monitorProcesses pf probes reg) ! k = reg ! k"
    using monitorProcesses_nth(1) [OF assms(1), of pf probes] s by auto
  have "snd (monitorProcesses pf probes reg) ! k = monitor_async pf (probes k) (reg ! k)"
    using monitorProcesses_nth(2) [OF assms(1), of pf probes] s by simp
  also have "\<dots> = reg ! k"
    using assms(2-4) by (rule monitor_async_alive_failed)
  finally have b: "snd (monitorProcesses pf probes reg) ! k = reg ! k" .
  from a b show ?thesis by (simp add: monitorProcesses_lengths)
qed

theorem failed_usage_query_keeps_metrics_witness:
  "(0::nat) < length [example_record\<lparr>cpu := Finite 3, memory := Finite 2\<rparr>]
   \<and> status ([example_record\<lparr>cpu := Finite 3, memory := Finite 2\<rparr>] ! 0) = online
   \<and> reports_alive (ExecDone False '' 4000'')
   \<and> usage_failed (ExecDone True [])
   \<and> cpu (snd (monitorProcesses (\<lambda>t. NaN)
        (\<lambda>k. \<lparr> alive_reply = ExecDone False '' 4000'', usage_reply = ExecDone True [],
                t_seen = 5, t_done = 6 \<rparr>)
        [example_record\<lparr>cpu := Finite 3, memory := Finite 2\<rparr>]) ! 0) = Finite 3
   \<and> memory (fst (monitorProcesses (\<lambda>t. NaN)
        (\<lambda>k. \<lparr> alive_reply = ExecDone False '' 4000'', usage_reply = ExecDone True [],
                t_seen = 5, t_done = 6 \<rparr>)
        [example_record\<lparr>cpu := Finite 3, memory := Finite 2\<rparr>]) ! 0) = Finite 2"
proof -
  let ?reg = "[example_record\<lparr>cpu := Finite 3, memory := Finite 2\<rparr>]"
  let ?probes = "\<lambda>k::nat. \<lparr> alive_reply = ExecDone False '' 4000'',
      usage_reply = ExecDone True [], t_seen = 5, t_done = 6 \<rparr>"
  have 1: "(0::nat) < length ?reg" by simp
  have 2: "status (?reg ! 0) = online" by (simp add: example_record_def)
  have "js_trim '' 4000'' = ''4000''"
    by (simp add: js_trim_def drop_ws.simps drop_ws_end.simps ws_len_def ws_len_end_def
        ws_seqs_def)
  then have 3: "reports_alive (ExecDone False '' 4000'')"
    by (simp add: reports_alive_def)
  have 4: "usage_failed (ExecDone True [])" by (simp add: usage_failed_def)
  have h3: "reports_alive (alive_reply (?probes 0))" using 3 by simp
  have h4: "usage_failed (usage_reply (?probes 0))" using 4 by simp
  from failed_usage_query_keeps_metrics [OF 1 2 h3 h4, of "\<lambda>t. NaN"]
  have "cpu (snd (monitorProcesses (\<lambda>t. NaN) ?probes ?reg) ! 0) = cpu (?reg ! 0)"
    and "memory (fst (monitorProcesses (\<lambda>t. NaN) ?probes ?reg) ! 0) = memory (?reg ! 0)"
    by blast+
  then have "cpu (snd (monitorProcesses (\<lambda>t. NaN) ?probes ?reg) ! 0) = Finite 3"
    and "memory (fst (monitorProcesses (\<lambda>t. NaN) ?probes ?reg) ! 0) = Finite 2"
    by simp_all
  with 1 2 3 4 show ?thesis by blast
qed

subsection \<open>An invariant of every registry the program writes\<close>

lemma distinct_splice1: "distinct ys \<Longrightarrow> distinct (take k ys @ drop (Suc k) ys)"
proof -
  assume "distinct ys"
  then have "distinct (take k ys @ drop k ys)" by simp
  then have d: "distinct (take k ys)" "distinct (drop k ys)"
    "set (take k ys) \<inter> set (drop k ys) = {}"
    by (simp_all only: distinct_append)
  have s: "set (drop (Suc k) ys) \<subseteq> set (drop k ys)"
    by (rule set_drop_subset_set_drop) simp
  from d(2) have "distinct (drop (Suc k) ys)"
    by (metis distinct_drop drop_drop plus_1_eq_Suc)
  with d(1,3) s show ?thesis by (auto simp: distinct_append)
qed

lemma registry_inv_splice1: "registry_inv reg \<Longrightarrow> registry_inv (splice1 k reg)"
proof -
  assume a: "registry_inv reg"
  then have "distinct (take k (map id' reg) @ drop (Suc k) (map id' reg))"
    by (intro distinct_splice1) (simp add: registry_inv_def)
  then have "distinct (map id' (splice1 k reg))"
    by (simp add: splice1_def take_map drop_map)
  moreover have "set (splice1 k reg) \<subseteq> set reg"
    using set_take_subset [of k reg] set_drop_subset [of "Suc k" reg]
    by (auto simp: splice1_def)
  with a have "list_all (\<lambda>p. instances p \<noteq> Some 0) (splice1 k reg)"
    by (auto simp: registry_inv_def list_all_iff)
  ultimately show ?thesis by (simp add: registry_inv_def)
qed

lemma registry_inv_butlast: "registry_inv reg \<Longrightarrow> registry_inv (butlast reg)"
proof -
  assume a: "registry_inv reg"
  then have "distinct (butlast (map id' reg))"
    by (simp add: registry_inv_def distinct_butlast)
  then have "distinct (map id' (butlast reg))" by (simp add: map_butlast)
  moreover from a have "list_all (\<lambda>p. instances p \<noteq> Some 0) (butlast reg)"
    by (auto simp: registry_inv_def list_all_iff dest: in_set_butlastD)
  ultimately show ?thesis by (simp add: registry_inv_def)
qed

lemma registry_inv_filter: "registry_inv reg \<Longrightarrow> registry_inv (filter P reg)"
  by (auto simp: registry_inv_def list_all_iff distinct_map_filter)

lemma registry_inv_same_fields:
  assumes "registry_inv reg" and "length reg' = length reg"
    and "\<forall>k<length reg. id' (reg' ! k) = id' (reg ! k) \<and> instances (reg' ! k) = instances (reg ! k)"
  shows "registry_inv reg'"
proof -
  have "map id' reg' = map id' reg"
    using assms(2,3) by (intro nth_equalityI) simp_all
  moreover have "map instances reg' = map instances reg"
    using assms(2,3) by (intro nth_equalityI) simp_all
  then have "list_all (\<lambda>n. n \<noteq> Some 0) (map instances reg') = list_all (\<lambda>n. n \<noteq> Some 0) (map instances reg)"
    by simp
  then have "list_all (\<lambda>p. instances p \<noteq> Some 0) reg' = list_all (\<lambda>p. instances p \<noteq> Some 0) reg"
    by (simp add: list_all_iff)
  ultimately show ?thesis using assms(1) by (simp add: registry_inv_def)
qed

lemma registry_inv_startGTR:
  assumes "registry_inv reg" and "ex = None \<or> (\<exists>e. ex = Some e \<and> e \<notin> set (map id' reg))"
  shows "registry_inv (snd (startGTR w nm scr opts ex reg))"
proof (cases "fst (startGTR w nm scr opts ex reg)")
  case (Inl err)
  then have "startGTR w nm scr opts ex reg = (Inl err, snd (startGTR w nm scr opts ex reg))"
    by (metis prod.collapse)
  from startGTR_Inl [OF this] assms(1) show ?thesis by simp
next
  case (Inr i)
  then have "startGTR w nm scr opts ex reg = (Inr i, snd (startGTR w nm scr opts ex reg))"
    by (metis prod.collapse)
  from startGTR_Inr [OF this] obtain cp
    where i: "i = (case ex of Some e \<Rightarrow> e | None \<Rightarrow> generateId reg)"
      and r: "snd (startGTR w nm scr opts ex reg) = reg @ [processInfo w nm scr opts ex i cp]"
    by auto
  from i assms(2) generateId_props(2) [of reg] have "i \<notin> set (map id' reg)" by auto
  moreover have "instances (processInfo w nm scr opts ex i cp) \<noteq> Some 0"
    by (simp add: processInfo_def instances_of_def split: parsed.splits)
  ultimately show ?thesis using assms(1) r by (simp add: registry_inv_def processInfo_def)
qed

lemma registry_inv_mark_stopped: "registry_inv reg \<Longrightarrow> registry_inv (mark_stopped now i reg)"
proof (cases "findIndex (\<lambda>p. id' p = i) reg")
  case None
  assume "registry_inv reg"
  with None show ?thesis by (simp add: mark_stopped_def readProcesses_def)
next
  case (Some k)
  assume a: "registry_inv reg"
  from findIndex_Some [OF Some] have k: "k < length reg" by simp
  have "registry_inv (reg[k := (reg ! k)\<lparr>status := stopped, updatedAt := now\<rparr>])"
    using a
  proof (rule registry_inv_same_fields)
    show "length (reg[k := (reg ! k)\<lparr>status := stopped, updatedAt := now\<rparr>]) = length reg"
      by simp
    show "\<forall>j<length reg.
        id' (reg[k := (reg ! k)\<lparr>status := stopped, updatedAt := now\<rparr>] ! j) = id' (reg ! j)
        \<and> instances (reg[k := (reg ! k)\<lparr>status := stopped, updatedAt := now\<rparr>] ! j)
          = instances (reg ! j)"
    proof (intro allI impI)
      fix j assume "j < length reg"
      then show "id' (reg[k := (reg ! k)\<lparr>status := stopped, updatedAt := now\<rparr>] ! j) = id' (reg ! j)
        \<and> instances (reg[k := (reg ! k)\<lparr>status := stopped, updatedAt := now\<rparr>] ! j)
          = instances (reg ! j)"
        by (cases "j = k") simp_all
    qed
  qed
  with Some show ?thesis by (simp add: mark_stopped_def readProcesses_def writeProcesses_def)
qed

lemma registry_inv_restart_timer:
  assumes "registry_inv reg"
  shows "registry_inv (snd (restart_timer w x reg))"
proof (cases "findIndex (\<lambda>p. id' p = id' x) reg")
  case None
  with assms show ?thesis by (simp add: restart_timer_cases)
next
  case (Some k)
  from findIndex_Some [OF Some] have k: "k < length reg" "id' (reg ! k) = id' x" by simp_all
  from assms have d: "distinct (map id' reg)" by (simp add: registry_inv_def)
  from splice1_ids_distinct(1) [OF d k(1)] k(2)
  have "id' x \<notin> set (map id' (splice1 k reg))" by simp
  with registry_inv_splice1 [OF assms, of k]
  have "registry_inv (snd (startGTR w (name x) (script x) (restart_options x) (Some (id' x))
      (splice1 k reg)))"
    by (intro registry_inv_startGTR) simp_all
  with Some show ?thesis by (simp add: restart_timer_cases)
qed

lemma registry_inv_delete_cmd:
  "registry_inv reg \<Longrightarrow> registry_inv (snd (delete_cmd now ident stop_option reg))"
  by (auto simp: delete_cmd_def readProcesses_def writeProcesses_def Let_def splice_index_def
      stopGTR_file_unchanged registry_inv_splice1 registry_inv_butlast split: option.splits)

lemma registry_inv_delete_timer:
  "registry_inv reg \<Longrightarrow> registry_inv (delete_timer x reg)"
  by (auto simp: delete_timer_def readProcesses_def writeProcesses_def registry_inv_splice1
      split: option.splits)

lemma registry_inv_prune: "registry_inv reg \<Longrightarrow> registry_inv (snd (prune reg))"
  by (simp add: prune_def readProcesses_def writeProcesses_def Let_def registry_inv_filter)

lemma registry_inv_resurrect_each:
  "registry_inv reg \<Longrightarrow> registry_inv (snd (resurrect_each ws k entries reg))"
proof (induction entries arbitrary: k reg)
  case Nil
  then show ?case by simp
next
  case (Cons e rest)
  have "registry_inv (snd (startGTR (ws k) (name e) (script e) (resurrect_options e) None reg))"
    using Cons.prems by (intro registry_inv_startGTR) simp_all
  with Cons show ?case by (simp add: Let_def)
qed

lemma registry_inv_resurrect:
  "registry_inv reg \<Longrightarrow> registry_inv (snd (resurrect ws eco reg))"
  by (simp add: resurrect_def Let_def registry_inv_resurrect_each split: option.splits)

lemma monitor_sync_fields:
  "id' (fst (monitor_sync pr p)) = id' p" "instances (fst (monitor_sync pr p)) = instances p"
  by (simp_all add: monitor_sync_def)

lemma registry_inv_monitor:
  assumes "registry_inv reg"
  shows "registry_inv (fst (monitorProcesses pf probes reg))"
  using assms
proof (rule registry_inv_same_fields)
  show "length (fst (monitorProcesses pf probes reg)) = length reg"
    by (rule monitorProcesses_lengths)
  show "\<forall>k<length reg.
      id' (fst (monitorProcesses pf probes reg) ! k) = id' (reg ! k)
      \<and> instances (fst (monitorProcesses pf probes reg) ! k) = instances (reg ! k)"
  proof (intro allI impI)
    fix k assume "k < length reg"
    from monitorProcesses_nth(1) [OF this, of pf probes]
    show "id' (fst (monitorProcesses pf probes reg) ! k) = id' (reg ! k)
      \<and> instances (fst (monitorProcesses pf probes reg) ! k) = instances (reg ! k)"
      by (auto simp: monitor_sync_fields)
  qed
qed

lemma registry_inv_step: "registry_inv reg \<Longrightarrow> registry_inv (step_file s reg)"
proof (cases s)
  case (StartStep w nm scr opts)
  assume "registry_inv reg"
  then have "registry_inv (snd (startGTR w nm scr opts None reg))"
    by (intro registry_inv_startGTR) simp_all
  with StartStep show ?thesis by simp
next
  case (KillStep outcome now process)
  assume "registry_inv reg"
  with KillStep show ?thesis
    by (cases outcome) (simp_all add: kill_callback_def registry_inv_mark_stopped)
qed (simp_all add: stopGTR_file_unchanged registry_inv_restart_timer registry_inv_delete_cmd
    registry_inv_delete_timer registry_inv_prune registry_inv_resurrect registry_inv_monitor)

lemma registry_inv_foldl:
  "registry_inv reg \<Longrightarrow> registry_inv (foldl (\<lambda>reg s. step_file s reg) reg steps)"
  by (induction steps arbitrary: reg) (simp_all add: registry_inv_step)

lemma registry_inv_run_steps: "registry_inv (run_steps steps)"
  unfolding run_steps_def by (rule registry_inv_foldl) (simp add: registry_inv_def)

subsection \<open>Allocation of ids\<close>

text \<open>
  Claim C3. A successful \<open>start\<close> (no \<open>existingId\<close>) gives the new record the value of
  \<open>generateId\<close>, which is the smallest non-negative integer that is the id of no record
  of the registry, and appends that record. Hence ids that are pairwise distinct stay
  pairwise distinct, after one call and after any sequence of calls, and they are pairwise
  distinct in every registry the program writes, starting from the empty one. When the
  record removed by \<open>delete\<close> had an id below which every non-negative integer is in use,
  the next successful \<open>start\<close> gets that id again.
\<close>

theorem start_allocates_lowest_unused_id:
  "(startGTR w nm scr opts None reg = (Inr i, reg') \<longrightarrow>
      i = generateId reg \<and> 0 \<le> i \<and> i \<notin> set (map id' reg)
      \<and> (\<forall>k. 0 \<le> k \<and> k < i \<longrightarrow> k \<in> set (map id' reg))
      \<and> (\<exists>r. reg' = reg @ [r] \<and> id' r = i)
      \<and> (distinct (map id' reg) \<longrightarrow> distinct (map id' reg')))
   \<and> (distinct (map id' reg) \<longrightarrow> distinct (map id' (start_calls calls reg)))
   \<and> distinct (map id' (run_steps steps))
   \<and> (distinct (map id' reg) \<and> findProcess (Str ident) reg = Some x \<and> 0 \<le> id' x
        \<and> (\<forall>k. 0 \<le> k \<and> k < id' x \<longrightarrow> k \<in> set (map id' reg))
        \<and> startGTR w nm scr opts None (snd (delete_cmd now ident False reg)) = (Inr j, reg'')
      \<longrightarrow> j = id' x)"
proof (intro conjI impI)
  assume ok: "startGTR w nm scr opts None reg = (Inr i, reg')"
  from startGTR_Inr [OF ok] obtain cp
    where i: "i = generateId reg"
      and reg': "reg' = reg @ [processInfo w nm scr opts None i cp]"
    by auto
  show "i = generateId reg" by (rule i)
  show "0 \<le> i" using i generateId_props(1) by simp
  show "i \<notin> set (map id' reg)" using i generateId_props(2) by simp
  show "\<forall>k. 0 \<le> k \<and> k < i \<longrightarrow> k \<in> set (map id' reg)"
    using i generateId_props(3) by blast
  show "\<exists>r. reg' = reg @ [r] \<and> id' r = i"
    using reg' by (simp add: processInfo_def)
  {
    assume "distinct (map id' reg)"
    from startGTR_distinct [OF this, of w nm scr opts] ok
    show "distinct (map id' reg')" by simp
  }
next
  assume "distinct (map id' reg)"
  then show "distinct (map id' (start_calls calls reg))" by (rule start_calls_distinct)
next
  show "distinct (map id' (run_steps steps))"
    using registry_inv_run_steps [of steps] by (simp add: registry_inv_def)
next
  assume a: "distinct (map id' reg) \<and> findProcess (Str ident) reg = Some x \<and> 0 \<le> id' x
        \<and> (\<forall>k. 0 \<le> k \<and> k < id' x \<longrightarrow> k \<in> set (map id' reg))
        \<and> startGTR w nm scr opts None (snd (delete_cmd now ident False reg)) = (Inr j, reg'')"
  then have "generateId (snd (delete_cmd now ident False reg)) = id' x"
    by (intro deleted_id_reused) simp_all
  moreover from a startGTR_Inr [of w nm scr opts None "snd (delete_cmd now ident False reg)" j reg'']
  have "j = generateId (snd (delete_cmd now ident False reg))" by auto
  ultimately show "j = id' x" by simp
qed

theorem start_allocates_lowest_unused_id_witness:
  "distinct (map id' example_registry)
   \<and> fst (startGTR example_world ''api'' ''/srv/app.js'' example_options None example_registry)
     = Inr 2
   \<and> distinct (map id' (snd (startGTR example_world ''api'' ''/srv/app.js'' example_options
        None example_registry)))
   \<and> distinct (map id' (start_calls
        [(example_world, ''api'', ''/srv/app.js'', example_options),
         (example_world, ''web'', ''/srv/app.js'', example_options)] example_registry))
   \<and> map id' (run_steps
        [StartStep example_world ''api'' ''/srv/app.js'' example_options,
         StartStep example_world ''web'' ''/srv/app.js'' example_options,
         DeleteStep 7 ''api'' False,
         StartStep example_world ''app'' ''/srv/app.js'' example_options]) = [1, 0]
   \<and> findProcess (Str ''app'') example_registry = Some example_record
   \<and> id' example_record = 0
   \<and> fst (startGTR example_world ''api'' ''/srv/app.js'' example_options None
        (snd (delete_cmd 7 ''app'' False example_registry))) = Inr 0"
proof -
  let ?s = "startGTR example_world ''api'' ''/srv/app.js'' example_options None example_registry"
  let ?d = "startGTR example_world ''api'' ''/srv/app.js'' example_options None
        (snd (delete_cmd 7 ''app'' False example_registry))"
  let ?calls = "[(example_world, ''api'', ''/srv/app.js'', example_options),
        (example_world, ''web'', ''/srv/app.js'', example_options)]"
  let ?steps = "[StartStep example_world ''api'' ''/srv/app.js'' example_options,
         StartStep example_world ''web'' ''/srv/app.js'' example_options,
         DeleteStep 7 ''api'' False,
         StartStep example_world ''app'' ''/srv/app.js'' example_options]"
  have d: "distinct (map id' example_registry)" by (simp add: example_simps)
  have s1: "fst ?s = Inr 2" by (simp add: example_simps)
  then have s: "?s = (Inr 2, snd ?s)" by (metis prod.collapse)
  have f: "findProcess (Str ''app'') example_registry = Some example_record"
    by (simp add: example_simps)
  have x: "0 \<le> id' example_record"
    "\<forall>k. 0 \<le> k \<and> k < id' example_record \<longrightarrow> k \<in> set (map id' example_registry)"
    by (simp_all add: example_simps)
  have e1: "fst ?d = Inr 0" by (simp add: example_simps)
  then have e: "?d = (Inr 0, snd ?d)" by (metis prod.collapse)
  have r: "map id' (run_steps ?steps) = [1, 0]"
    by (simp add: run_steps_def example_simps)
  note T = start_allocates_lowest_unused_id
    [of example_world "''api''" "''/srv/app.js''" example_options example_registry 2 "snd ?s"
      ?calls ?steps "''app''" example_record 7 0 "snd ?d"]
  from T s d have "distinct (map id' (snd ?s))" by blast
  moreover from T d have "distinct (map id' (start_calls ?calls example_registry))" by blast
  moreover from T d f x e have "0 = id' example_record" by blast
  ultimately show ?thesis using d s1 f e1 r by simp
qed

subsection \<open>What a restart carries over\<close>











end
